theory Spec2Isabelle
  imports Complex_Main "HOL-Library.Word" "HOL-Library.List_Lexorder"
begin

section \<open>Common definitions\<close>

text \<open>
  The C++ exceptions raised through \<^verbatim>\<open>THROW_EXCEPTION\<close> (global.hpp) are values of
  the datatype \<open>error\<close>, named after the standard exception class that is thrown.
  A function that may throw returns \<open>error + 'a\<close>, with \<open>Inl\<close> for the exception.
  Two further values stand for runs that do not return normally without a C++ exception:
  \<open>stream_failure\<close> (an input stream ran out of data; the code does not test the stream
  and would go on with indeterminate values, the model stops there) and \<open>no_return\<close>
  (a loop whose 32-bit counter can never reach its 64-bit bound). Two more mark the
  places where the C++ run leaves what the model can express: \<open>not_a_number\<close> (a
  floating-point division by zero in the dynamics; the program goes on with a NaN or an
  infinity, which is not a real number) and \<open>undefined_behaviour\<close> (an access outside a
  buffer, or an overflow of a signed \<^verbatim>\<open>int\<close>). \<open>bad_alloc\<close> and \<open>length_error\<close> are
  the exceptions of the standard library when a container cannot get its memory.
\<close>

datatype error =
    logic_error
  | runtime_error
  | invalid_argument
  | out_of_range
  | overflow_error
  | domain_error
  | stream_failure
  | no_return
  | not_a_number
  | undefined_behaviour
  | bad_alloc
  | length_error

text \<open>
  \<^verbatim>\<open>int\<close> is a 32-bit two's complement word, read by \<open>sint\<close> and compared by the
  signed orders \<open><s\<close> and \<open><=s\<close>; \<^verbatim>\<open>std::size_t\<close> and \<^verbatim>\<open>uint64_t\<close> are 64-bit
  words, read by \<open>unat\<close>.
\<close>

type_synonym index_type = "32 word"
type_synonym size_t = "64 word"

section \<open>MultiIndex (common/multiindex.hpp, common/multiindex.cpp)\<close>

definition MAX_MULTIINDEX_DIMENSION :: nat where
  "MAX_MULTIINDEX_DIMENSION = 4"

text \<open>
  The three \<^verbatim>\<open>std::array<int, MAX_MULTIINDEX_DIMENSION>\<close> members are lists of
  \<open>MAX_MULTIINDEX_DIMENSION\<close> entries. \<open>storage_ok\<close> says that a record has the shape of
  the C++ object: three arrays of four entries, and a dimension that fits the arrays
  (the bound that the constructor \<^verbatim>\<open>MultiIndex(std::size_t)\<close> enforces).
\<close>

record MultiIndex =
  mLowerBound :: "index_type list"
  mUpperBound :: "index_type list"
  mCurrentPos :: "index_type list"
  mDimension :: nat
  mIsValid :: bool

definition storage_ok :: "MultiIndex \<Rightarrow> bool" where
  "storage_ok idx \<longleftrightarrow>
     length (mLowerBound idx) = MAX_MULTIINDEX_DIMENSION \<and>
     length (mUpperBound idx) = MAX_MULTIINDEX_DIMENSION \<and>
     length (mCurrentPos idx) = MAX_MULTIINDEX_DIMENSION \<and>
     mDimension idx \<le> MAX_MULTIINDEX_DIMENSION"

text \<open>
  \<^verbatim>\<open>MultiIndex(std::size_t dims)\<close>. The header documents the arrays as initialised to
  zero; no operation below reads an entry before it has been set.
\<close>

definition MultiIndex_new :: "nat \<Rightarrow> error + MultiIndex" where
  "MultiIndex_new dims =
     (if dims > MAX_MULTIINDEX_DIMENSION then Inl logic_error
      else Inr \<lparr> mLowerBound = replicate MAX_MULTIINDEX_DIMENSION 0,
                 mUpperBound = replicate MAX_MULTIINDEX_DIMENSION 0,
                 mCurrentPos = replicate MAX_MULTIINDEX_DIMENSION 0,
                 mDimension = dims,
                 mIsValid = False \<rparr>)"

definition valid :: "MultiIndex \<Rightarrow> bool" where
  "valid idx = mIsValid idx"

text \<open>\<^verbatim>\<open>checkNotValid\<close>: throws when the index is in use.\<close>

definition checkNotValid :: "MultiIndex \<Rightarrow> error + unit" where
  "checkNotValid idx = (if valid idx then Inl logic_error else Inr ())"

text \<open>\<^verbatim>\<open>std::array::at\<close> checks the position against the array size.\<close>

definition array_at :: "'a list \<Rightarrow> nat \<Rightarrow> error + 'a" where
  "array_at a i = (if i < length a then Inr (a ! i) else Inl out_of_range)"

definition setLowerBoundAt :: "nat \<Rightarrow> index_type \<Rightarrow> MultiIndex \<Rightarrow> error + MultiIndex" where
  "setLowerBoundAt d lb idx =
     (if valid idx then Inl logic_error
      else if d < length (mLowerBound idx)
        then Inr (idx\<lparr> mLowerBound := (mLowerBound idx)[d := lb] \<rparr>)
        else Inl out_of_range)"

definition setUpperBoundAt :: "nat \<Rightarrow> index_type \<Rightarrow> MultiIndex \<Rightarrow> error + MultiIndex" where
  "setUpperBoundAt d ub idx =
     (if valid idx then Inl logic_error
      else if d < length (mUpperBound idx)
        then Inr (idx\<lparr> mUpperBound := (mUpperBound idx)[d := ub] \<rparr>)
        else Inl out_of_range)"

text \<open>
  \<^verbatim>\<open>setUpperBoundDynamic\<close>: the \<^verbatim>\<open>assert(valid())\<close> is compiled out in release
  builds and is not a branch; the two checks and the \<^verbatim>\<open>at\<close> range check are.
\<close>

definition setUpperBoundDynamic :: "nat \<Rightarrow> index_type \<Rightarrow> MultiIndex \<Rightarrow> error + MultiIndex" where
  "setUpperBoundDynamic d ub idx =
     (case array_at (mLowerBound idx) d of
        Inl e \<Rightarrow> Inl e
      | Inr lb \<Rightarrow>
          if ub <=s lb then Inl logic_error
          else (case array_at (mCurrentPos idx) d of
                  Inl e \<Rightarrow> Inl e
                | Inr cur \<Rightarrow>
                    if ub <=s cur then Inl logic_error
                    else if d < length (mUpperBound idx)
                      then Inr (idx\<lparr> mUpperBound := (mUpperBound idx)[d := ub] \<rparr>)
                      else Inl out_of_range))"

text \<open>
  \<^verbatim>\<open>init\<close>: the loop over \<open>i < mDimension\<close> that throws at the first axis with
  \<open>lower >= upper\<close> is the test that some such axis exists.
\<close>

definition init :: "MultiIndex \<Rightarrow> error + MultiIndex" where
  "init idx =
     (if valid idx then Inl logic_error
      else if list_ex (\<lambda>i. mUpperBound idx ! i <=s mLowerBound idx ! i) [0..<mDimension idx]
        then Inl logic_error
        else Inr (idx\<lparr> mCurrentPos := mLowerBound idx, mIsValid := True \<rparr>))"

text \<open>
  \<^verbatim>\<open>increment\<close>: the loop \<^verbatim>\<open>for(i = mDimension-1; i < mDimension; --i)\<close> visits the
  axes \<open>mDimension - 1\<close> down to \<open>0\<close> and leaves when the unsigned counter wraps.
  \<open>increment_from n\<close> is the loop with \<open>n\<close> axes still to visit (the next one is
  \<open>n - 1\<close>); it returns the new position array and the axis that was incremented, or
  \<open>None\<close> when the loop ran out of axes. \<^verbatim>\<open>mCurrentPos[i]++\<close> is 32-bit addition.
\<close>

fun increment_from :: "nat \<Rightarrow> index_type list \<Rightarrow> index_type list \<Rightarrow> index_type list
    \<Rightarrow> index_type list \<times> nat option" where
  "increment_from 0 lo up cur = (cur, None)"
| "increment_from (Suc i) lo up cur =
     (let cur' = cur[i := cur ! i + 1] in
      if cur' ! i <s up ! i then (cur', Some i)
      else increment_from i lo up (cur'[i := lo ! i]))"

definition increment :: "MultiIndex \<Rightarrow> MultiIndex \<times> nat" where
  "increment idx =
     (case increment_from (mDimension idx) (mLowerBound idx) (mUpperBound idx) (mCurrentPos idx) of
        (cur, Some i) \<Rightarrow> (idx\<lparr> mCurrentPos := cur \<rparr>, i)
      | (cur, None) \<Rightarrow> (idx\<lparr> mCurrentPos := cur, mIsValid := False \<rparr>, 0))"

text \<open>
  The invariant of a valid index: on every axis below the dimension the position lies in
  the half-open range of the bounds, which is therefore not empty.
\<close>

definition in_box :: "MultiIndex \<Rightarrow> bool" where
  "in_box idx \<longleftrightarrow>
     list_all (\<lambda>i.
        mLowerBound idx ! i <=s mCurrentPos idx ! i \<and>
        mCurrentPos idx ! i <s mUpperBound idx ! i \<and>
        mLowerBound idx ! i <s mUpperBound idx ! i) [0..<mDimension idx]"

definition index_invariant :: "MultiIndex \<Rightarrow> bool" where
  "index_invariant idx \<longleftrightarrow> (valid idx \<longrightarrow> in_box idx)"

definition and_then :: "error + 'a \<Rightarrow> ('a \<Rightarrow> error + 'b) \<Rightarrow> error + 'b" where
  "and_then m f = (case m of Inl e \<Rightarrow> Inl e | Inr x \<Rightarrow> f x)"

section \<open>DynamicGrid (common/dynamic_grid_base.hpp, dynamic_grid_base.cpp, dynamic_grid.hpp)\<close>

datatype TransformationType = IDENTITY | FFT_INDEX | PERIODIC

text \<open>
  A grid holds the buffer of its \<^verbatim>\<open>GridStorage\<close> (\<open>mData\<close>, one entry per cell), its
  extents and its access mode. \<^verbatim>\<open>mDimension\<close> is set to \<^verbatim>\<open>sizes.size()\<close> by every
  constructor and never changes, so it is the length of \<open>mExtents\<close>. The function pointer
  \<^verbatim>\<open>mIndexFunction\<close> is only ever assigned together with \<open>mTrafoType\<close>, from
  \<open>getIndexFn\<close> of the mode and the dimension; \<open>getOffsetOf\<close> recomputes it.
\<close>

record 'v DynamicGrid =
  mData :: "'v list"
  mExtents :: "size_t list"
  mTrafoType :: TransformationType

definition getDimension :: "'v DynamicGrid \<Rightarrow> nat" where
  "getDimension g = length (mExtents g)"

definition getExtents :: "'v DynamicGrid \<Rightarrow> size_t list" where
  "getExtents g = mExtents g"

definition getAccessMode :: "'v DynamicGrid \<Rightarrow> TransformationType" where
  "getAccessMode g = mTrafoType g"

definition getElementCount :: "'v DynamicGrid \<Rightarrow> nat" where
  "getElementCount g = length (mData g)"

text \<open>
  \<^verbatim>\<open>safe_product\<close> (util.hpp) on a container of \<^verbatim>\<open>std::size_t\<close>: the test
  \<^verbatim>\<open>f < 0\<close> is never true for an unsigned factor; the overflow test divides the largest
  64-bit value by the factor.
\<close>

fun safe_product_from :: "size_t \<Rightarrow> size_t list \<Rightarrow> error + size_t" where
  "safe_product_from p [] = Inr p"
| "safe_product_from p (f # fs) =
     (if f \<noteq> 0 \<and> p \<ge> (- 1) div f then Inl overflow_error
      else safe_product_from (p * f) fs)"

definition safe_product :: "size_t list \<Rightarrow> error + size_t" where
  "safe_product factors = safe_product_from 1 factors"

text \<open>
  The index functions \<^verbatim>\<open>IdentityIndexFn<D>\<close>, \<^verbatim>\<open>FFTIndexFn<D>\<close> and
  \<^verbatim>\<open>PeriodicIndexFn<D>\<close> read \<open>D\<close> entries of the index and of the extents. All
  arithmetic is in \<^verbatim>\<open>std::size_t\<close>: an \<^verbatim>\<open>int\<close> index entry is sign-extended to 64
  bits (\<open>scast\<close>) where it meets an extent. In \<^verbatim>\<open>PeriodicIndexFn\<close> the remainder is
  therefore unsigned and the test \<^verbatim>\<open>mod < 0\<close> never holds.
\<close>

definition IdentityIndexFn :: "nat \<Rightarrow> index_type list \<Rightarrow> size_t list \<Rightarrow> size_t" where
  "IdentityIndexFn D index extends =
     foldl (\<lambda>offset i. offset * extends ! i + scast (index ! i)) 0 [0..<D]"

definition FFTIndexFn :: "nat \<Rightarrow> index_type list \<Rightarrow> size_t list \<Rightarrow> size_t" where
  "FFTIndexFn D index extends =
     foldl (\<lambda>offset i. offset * extends ! i +
              (if index ! i <s 0 then extends ! i + scast (index ! i) else scast (index ! i)))
       0 [0..<D]"

definition PeriodicIndexFn :: "nat \<Rightarrow> index_type list \<Rightarrow> size_t list \<Rightarrow> size_t" where
  "PeriodicIndexFn D index extends =
     foldl (\<lambda>offset i. offset * extends ! i + (scast (index ! i) mod extends ! i)) 0 [0..<D]"

definition getIndexFnTemplate :: "nat \<Rightarrow> TransformationType
    \<Rightarrow> index_type list \<Rightarrow> size_t list \<Rightarrow> size_t" where
  "getIndexFnTemplate N trafo =
     (case trafo of
        IDENTITY \<Rightarrow> IdentityIndexFn N
      | FFT_INDEX \<Rightarrow> FFTIndexFn N
      | PERIODIC \<Rightarrow> PeriodicIndexFn N)"

text \<open>
  \<^verbatim>\<open>getIndexFn(TransformationType, int dimension)\<close>: the \<^verbatim>\<open>std::size_t\<close> dimension of
  the caller is narrowed to \<^verbatim>\<open>int\<close>; the cases 1 to 6 exist.
\<close>

definition getIndexFn :: "TransformationType \<Rightarrow> nat
    \<Rightarrow> error + (index_type list \<Rightarrow> size_t list \<Rightarrow> size_t)" where
  "getIndexFn trafo dimension =
     (let d = sint (word_of_nat dimension :: index_type) in
      if 1 \<le> d \<and> d \<le> 6 then Inr (getIndexFnTemplate (nat d) trafo)
      else Inl logic_error)"

definition setAccessMode :: "TransformationType \<Rightarrow> 'v DynamicGrid \<Rightarrow> error + 'v DynamicGrid" where
  "setAccessMode type g =
     (case getIndexFn type (getDimension g) of
        Inl e \<Rightarrow> Inl e
      | Inr fn \<Rightarrow> Inr (g\<lparr> mTrafoType := type \<rparr>))"

text \<open>
  \<^verbatim>\<open>GridStorage::create<T>(size)\<close> resizes a \<^verbatim>\<open>std::vector\<close> to \<open>size\<close>
  value-initialised cells. Whether the memory can be obtained is decided by the run-time
  environment, not by the program: an \<open>allocator\<close> gives, for a number of cells, the
  exception that creating a storage of that many cells throws (\<^verbatim>\<open>std::bad_alloc\<close>, or
  \<^verbatim>\<open>std::length_error\<close> for a count above the vector's \<^verbatim>\<open>max_size()\<close>), or \<open>None\<close>
  when the storage is created; it stands for the state of the memory during a call.
  \<open>unlimited\<close> is the environment in which every storage is created. The smaller
  allocations of the program (index vectors, strings) are not modelled.
\<close>

type_synonym allocator = "nat \<Rightarrow> error option"

definition unlimited :: allocator where
  "unlimited n = None"

definition GridStorage_create :: "allocator \<Rightarrow> nat \<Rightarrow> error + ('v::zero) list" where
  "GridStorage_create alloc n =
     (case alloc n of Some e \<Rightarrow> Inl e | None \<Rightarrow> Inr (replicate n 0))"

text \<open>
  The function-try-block of the constructor: \<^verbatim>\<open>catch(std::bad_alloc&)\<close> throws
  \<^verbatim>\<open>std::runtime_error\<close> in its place; every other exception passes through.
\<close>

definition catch_bad_alloc :: "error + 'a \<Rightarrow> error + 'a" where
  "catch_bad_alloc m =
     (case m of Inl e \<Rightarrow> Inl (if e = bad_alloc then runtime_error else e) | Inr x \<Rightarrow> Inr x)"

text \<open>
  \<^verbatim>\<open>DynamicGrid(const extents_type& sizes, TransformationType indexing)\<close>, inside its
  function-try-block: \<^verbatim>\<open>safe_product(sizes)\<close> is evaluated first, the storage is
  created with that many value-initialised cells, and the base constructor ends with
  \<^verbatim>\<open>setAccessMode\<close>.
\<close>

definition DynamicGrid_new :: "allocator \<Rightarrow> size_t list \<Rightarrow> TransformationType
    \<Rightarrow> error + ('v::zero) DynamicGrid" where
  "DynamicGrid_new alloc sizes indexing =
     catch_bad_alloc
       (and_then (safe_product sizes) (\<lambda>n.
        and_then (GridStorage_create alloc (unat n)) (\<lambda>cells.
          setAccessMode indexing
            \<lparr> mData = cells, mExtents = sizes, mTrafoType = IDENTITY \<rparr>)))"

text \<open>\<^verbatim>\<open>DynamicGrid(size_t dimension, size_t size, TransformationType indexing)\<close>\<close>

definition DynamicGrid_square :: "allocator \<Rightarrow> nat \<Rightarrow> size_t \<Rightarrow> TransformationType
    \<Rightarrow> error + ('v::zero) DynamicGrid" where
  "DynamicGrid_square alloc dimension sz indexing =
     DynamicGrid_new alloc (replicate dimension sz) indexing"

definition getOffsetOf :: "'v DynamicGrid \<Rightarrow> index_type list \<Rightarrow> size_t" where
  "getOffsetOf g index =
     (case getIndexFn (mTrafoType g) (getDimension g) of
        Inr fn \<Rightarrow> fn index (mExtents g)
      | Inl e \<Rightarrow> 0)"


section \<open>Binary file I/O (common/fileIO.hpp, fileIO.cpp, common/grid_storage.cpp)\<close>

text \<open>
  A file is a list of bytes; an output function returns the bytes it writes and an input
  function takes the unread bytes and returns what it read together with the bytes that
  remain. \<^verbatim>\<open>writeInteger\<close> copies the eight bytes of a \<^verbatim>\<open>uint64_t\<close> to the stream
  and \<^verbatim>\<open>readInteger\<close> copies them back; the byte order is that of the machine, taken
  as little-endian as the file format states. A \<^verbatim>\<open>double\<close> is moved the same way, as its
  eight bytes: it is modelled by its 64-bit pattern, which is all that file I/O looks at.
\<close>

type_synonym byte = "8 word"
type_synonym double = "64 word"

fun le_bytes :: "nat \<Rightarrow> nat \<Rightarrow> byte list" where
  "le_bytes 0 v = []"
| "le_bytes (Suc n) v = word_of_nat (v mod 256) # le_bytes n (v div 256)"

fun le_value :: "byte list \<Rightarrow> nat" where
  "le_value [] = 0"
| "le_value (b # bs) = unat b + 256 * le_value bs"

definition stream_read :: "nat \<Rightarrow> byte list \<Rightarrow> error + (byte list \<times> byte list)" where
  "stream_read n inp =
     (if n \<le> length inp then Inr (take n inp, drop n inp) else Inl stream_failure)"

definition writeInteger :: "size_t \<Rightarrow> byte list" where
  "writeInteger v = le_bytes 8 (unat v)"

definition readInteger :: "byte list \<Rightarrow> error + (size_t \<times> byte list)" where
  "readInteger inp =
     and_then (stream_read 8 inp) (\<lambda>(bs, rest). Inr (word_of_nat (le_value bs), rest))"

definition writeFloat :: "double \<Rightarrow> byte list" where
  "writeFloat v = le_bytes 8 (unat v)"

definition readFloat :: "byte list \<Rightarrow> error + (double \<times> byte list)" where
  "readFloat inp =
     and_then (stream_read 8 inp) (\<lambda>(bs, rest). Inr (word_of_nat (le_value bs), rest))"

text \<open>
  A loop \<^verbatim>\<open>for(unsigned i = 0; i < n; ++i)\<close> whose bound \<open>n\<close> is a 64-bit value: the
  32-bit counter wraps before it reaches a bound of \<open>2 ^ 32\<close> or more, and the loop
  never ends. Otherwise the body runs \<open>n\<close> times, here reading one item each time.
\<close>

fun read_items :: "(byte list \<Rightarrow> error + ('a \<times> byte list)) \<Rightarrow> nat \<Rightarrow> byte list
    \<Rightarrow> error + ('a list \<times> byte list)" where
  "read_items rd 0 inp = Inr ([], inp)"
| "read_items rd (Suc n) inp =
     and_then (rd inp) (\<lambda>(x, rest).
       and_then (read_items rd n rest) (\<lambda>(xs, rest'). Inr (x # xs, rest')))"

definition unsigned_loop_read :: "(byte list \<Rightarrow> error + ('a \<times> byte list)) \<Rightarrow> size_t \<Rightarrow> byte list
    \<Rightarrow> error + ('a list \<times> byte list)" where
  "unsigned_loop_read rd n inp =
     (if n < 4294967296 then read_items rd (unat n) inp else Inl no_return)"

text \<open>\<^verbatim>\<open>file.get()\<close> used to read one character of a name.\<close>

definition stream_get :: "byte list \<Rightarrow> error + (byte \<times> byte list)" where
  "stream_get inp = (case inp of [] \<Rightarrow> Inl stream_failure | b # rest \<Rightarrow> Inr (b, rest))"

text \<open>
  The element type of a grid enters the dump through \<^verbatim>\<open>typeid(T).name()\<close> (a C string,
  so without a zero byte), \<^verbatim>\<open>sizeof(T)\<close> and the bytes of each cell in memory.
\<close>

record 'v cell_type =
  type_name :: "byte list"
  stride :: nat
  cell_bytes :: "'v \<Rightarrow> byte list"
  cell_value :: "byte list \<Rightarrow> 'v"

definition cell_type_ok :: "'v cell_type \<Rightarrow> bool" where
  "cell_type_ok ct \<longleftrightarrow>
     0 \<notin> set (type_name ct) \<and> 0 < stride ct \<and>
     (\<forall>v. length (cell_bytes ct v) = stride ct \<and> cell_value ct (cell_bytes ct v) = v)"

text \<open>The cell type \<^verbatim>\<open>double\<close>; \<open>nm\<close> is the compiler's \<^verbatim>\<open>typeid(double).name()\<close>.\<close>

definition double_cells :: "byte list \<Rightarrow> double cell_type" where
  "double_cells nm =
     \<lparr> type_name = nm, stride = 8,
       cell_bytes = (\<lambda>v. le_bytes 8 (unat v)),
       cell_value = (\<lambda>bs. word_of_nat (le_value bs)) \<rparr>"

text \<open>
  \<^verbatim>\<open>GridStorage::dump\<close>: the type name with its terminating zero, the number of cells,
  and \<^verbatim>\<open>getStride() * size()\<close> raw bytes.
\<close>

definition GridStorage_dump :: "'v cell_type \<Rightarrow> 'v list \<Rightarrow> byte list" where
  "GridStorage_dump ct cells =
     type_name ct @ [0] @ writeInteger (word_of_nat (length cells)) @
     concat (map (cell_bytes ct) cells)"

text \<open>\<^verbatim>\<open>DynamicGridBase::dump\<close>\<close>

definition dump :: "'v cell_type \<Rightarrow> 'v DynamicGrid \<Rightarrow> byte list" where
  "dump ct g =
     [103] @ writeInteger (word_of_nat (getDimension g)) @
     concat (map writeInteger (mExtents g)) @
     GridStorage_dump ct (mData g)"

text \<open>
  \<^verbatim>\<open>std::getline(in, type, (char)0)\<close>: the characters before the first zero byte; the
  zero byte is consumed.
\<close>

definition getline0 :: "byte list \<Rightarrow> error + (byte list \<times> byte list)" where
  "getline0 inp =
     (if 0 \<in> set inp then Inr (takeWhile (\<lambda>b. b \<noteq> 0) inp, tl (dropWhile (\<lambda>b. b \<noteq> 0) inp))
      else Inl stream_failure)"

fun chunks :: "nat \<Rightarrow> nat \<Rightarrow> byte list \<Rightarrow> byte list list" where
  "chunks k 0 bs = []"
| "chunks k (Suc n) bs = take k bs # chunks k n (drop k bs)"

text \<open>
  \<^verbatim>\<open>GridStorage::load\<close> into a storage of \<open>n\<close> cells: the type name and the count are
  compared with the storage's own, then \<^verbatim>\<open>getStride() * size()\<close> bytes (a product in
  \<^verbatim>\<open>std::size_t\<close>) overwrite the buffer.
\<close>

definition GridStorage_load :: "'v cell_type \<Rightarrow> nat \<Rightarrow> byte list \<Rightarrow> error + ('v list \<times> byte list)" where
  "GridStorage_load ct n inp =
     and_then (getline0 inp) (\<lambda>(type, rest).
     and_then (readInteger rest) (\<lambda>(count, rest').
       if type \<noteq> type_name ct then Inl runtime_error
       else if count \<noteq> word_of_nat n then Inl runtime_error
       else and_then (stream_read (unat (word_of_nat (stride ct) * word_of_nat n :: size_t)) rest')
              (\<lambda>(raw, rest''). Inr (map (cell_value ct) (chunks (stride ct) n raw), rest''))))"

text \<open>\<^verbatim>\<open>DynamicGridBase::load_info\<close>: the marker \<^verbatim>\<open>'g'\<close>, the dimension, the extents.\<close>

definition load_info :: "byte list \<Rightarrow> error + (size_t list \<times> byte list)" where
  "load_info inp =
     and_then (stream_read 1 inp) (\<lambda>(temp, rest).
       if temp \<noteq> [103] then Inl runtime_error
       else and_then (readInteger rest) (\<lambda>(dimension, rest').
              unsigned_loop_read readInteger dimension rest'))"

text \<open>
  \<^verbatim>\<open>DynamicGrid::load\<close>: a new grid of the extents read, always with
  \<^verbatim>\<open>TransformationType::IDENTITY\<close>, whose buffer is then loaded.
\<close>

definition load :: "allocator \<Rightarrow> ('v::zero) cell_type \<Rightarrow> byte list
    \<Rightarrow> error + ('v DynamicGrid \<times> byte list)" where
  "load alloc ct inp =
     and_then (load_info inp) (\<lambda>(extents, rest).
     and_then (DynamicGrid_new alloc extents IDENTITY) (\<lambda>grid.
     and_then (GridStorage_load ct (length (mData grid)) rest) (\<lambda>(cells, rest').
       Inr (grid\<lparr> mData := cells \<rparr>, rest'))))"


section \<open>Potential (common/potential.hpp, common/potential.cpp)\<close>

text \<open>
  The key of the map of grids: a quantity name and a derivative index. \<^verbatim>\<open>operator<\<close>
  compares the names as \<^verbatim>\<open>std::string\<close> does (lexicographically, by unsigned
  character value, which is the order of byte lists) and then the derivative indices by
  \<^verbatim>\<open>std::lexicographical_compare\<close> on \<^verbatim>\<open>int\<close>.
\<close>

datatype IndexType = IndexType (name: "byte list") (derivations: "index_type list")

fun lexicographical_compare :: "index_type list \<Rightarrow> index_type list \<Rightarrow> bool" where
  "lexicographical_compare [] [] = False"
| "lexicographical_compare [] (y # ys) = True"
| "lexicographical_compare (x # xs) [] = False"
| "lexicographical_compare (x # xs) (y # ys) =
     (if x <s y then True else if y <s x then False else lexicographical_compare xs ys)"

definition key_less :: "IndexType \<Rightarrow> IndexType \<Rightarrow> bool" where
  "key_less a b =
     (if name a < name b then True
      else if name a = name b then lexicographical_compare (derivations a) (derivations b)
      else False)"

text \<open>
  \<^verbatim>\<open>std::map<IndexType, grid_type>\<close> is the list of its entries in key order.
  \<open>map_assign k v\<close> is \<^verbatim>\<open>m[k] = v\<close>: the entry with an equivalent key (neither key less
  than the other) gets the new value, otherwise a new entry is inserted at its place.
\<close>

fun map_assign :: "IndexType \<Rightarrow> 'g \<Rightarrow> (IndexType \<times> 'g) list \<Rightarrow> (IndexType \<times> 'g) list" where
  "map_assign k v [] = [(k, v)]"
| "map_assign k v ((k', v') # rest) =
     (if key_less k k' then (k, v) # (k', v') # rest
      else if key_less k' k then (k', v') # map_assign k v rest
      else (k', v) # rest)"

type_synonym grid_type = "double DynamicGrid"

record Potential =
  potDimension :: nat
  mSeed :: size_t
  potExtents :: "size_t list"
  mSupport :: "double list"
  mStrength :: double
  mCorrelationLength :: double
  mPotgenVersion :: size_t
  potData :: "(IndexType \<times> grid_type) list"

text \<open>
  \<^verbatim>\<open>Potential(std::vector<std::size_t> extents, std::vector<double> support, double strength)\<close>.
  The constructor does not initialise \<^verbatim>\<open>mSeed\<close>: \<open>seed0\<close> is the value the member
  happens to hold. The correlation length starts as \<open>-1.0\<close>, whose bit pattern is
  \<open>0xBFF0000000000000\<close>.
\<close>

definition Potential_new :: "size_t \<Rightarrow> size_t list \<Rightarrow> double list \<Rightarrow> double \<Rightarrow> Potential" where
  "Potential_new seed0 extents support strength =
     \<lparr> potDimension = length extents, mSeed = seed0, potExtents = extents,
       mSupport = support, mStrength = strength,
       mCorrelationLength = 0xBFF0000000000000, mPotgenVersion = 3, potData = [] \<rparr>"

definition setCreationInfo :: "size_t \<Rightarrow> size_t \<Rightarrow> double \<Rightarrow> Potential \<Rightarrow> Potential" where
  "setCreationInfo seed version corrlength pot =
     pot\<lparr> mSeed := seed, mPotgenVersion := version, mCorrelationLength := corrlength \<rparr>"

text \<open>\<^verbatim>\<open>setDerivative(std::vector<int> deriv, grid_type data, const std::string& name)\<close>\<close>

definition setDerivative :: "index_type list \<Rightarrow> grid_type \<Rightarrow> byte list \<Rightarrow> Potential
    \<Rightarrow> error + Potential" where
  "setDerivative deriv data nm pot =
     (if length deriv \<noteq> potDimension pot then Inl runtime_error
      else if getDimension data \<noteq> potDimension pot then Inl runtime_error
      else Inr (pot\<lparr> potData := map_assign (IndexType nm deriv) data (potData pot) \<rparr>))"

definition setPotential :: "grid_type \<Rightarrow> byte list \<Rightarrow> Potential \<Rightarrow> error + Potential" where
  "setPotential data nm pot = setDerivative (replicate (potDimension pot) 0) data nm pot"

text \<open>
  A sequence of \<^verbatim>\<open>setPotential\<close> and \<^verbatim>\<open>setDerivative\<close> calls on one potential; it
  stops at the first call that throws.
\<close>

datatype set_call =
    SetPotential grid_type "byte list"
  | SetDerivative "index_type list" grid_type "byte list"

fun run_calls :: "set_call list \<Rightarrow> Potential \<Rightarrow> error + Potential" where
  "run_calls [] pot = Inr pot"
| "run_calls (SetPotential data nm # cs) pot = and_then (setPotential data nm pot) (run_calls cs)"
| "run_calls (SetDerivative deriv data nm # cs) pot =
     and_then (setDerivative deriv data nm pot) (run_calls cs)"

text \<open>What \<^verbatim>\<open>setDerivative\<close> checks of a grid and its key: the number of axes.\<close>

definition dims_ok :: "Potential \<Rightarrow> bool" where
  "dims_ok pot \<longleftrightarrow> (\<forall>(k, g) \<in> set (potData pot).
      getDimension g = potDimension pot \<and> length (derivations k) = potDimension pot)"

subsection \<open>Serialisation\<close>

definition bytes_of :: "string \<Rightarrow> byte list" where
  "bytes_of str = map (\<lambda>c. word_of_nat (of_char c)) str"

definition header :: "byte list" where
  "header = bytes_of ''bpot5''"

text \<open>\<^verbatim>\<open>operator<<\<close> for an unsigned integer: its decimal digits.\<close>

function show_nat :: "nat \<Rightarrow> byte list" where
  "show_nat n = (if n < 10 then [word_of_nat (48 + n)]
                 else show_nat (n div 10) @ [word_of_nat (48 + n mod 10)])"
  by pat_completeness auto
termination
  by (relation "measure id") auto

declare show_nat.simps [simp del]

text \<open>
  The text block that \<^verbatim>\<open>writeToFile\<close> builds in a string stream. \<open>fmt\<close> is the
  formatting of a \<^verbatim>\<open>double\<close> by \<^verbatim>\<open>operator<<\<close>. \<^verbatim>\<open>seekp(tellp() - 2)\<close> followed by an
  output overwrites the last two characters written so far.
\<close>

definition overwrite_last2 :: "byte list \<Rightarrow> byte list \<Rightarrow> byte list" where
  "overwrite_last2 text new = take (length text - 2) text @ new"

definition human_info :: "(double \<Rightarrow> byte list) \<Rightarrow> Potential \<Rightarrow> byte list" where
  "human_info fmt pot =
     (let s1 = [10] @ bytes_of ''potgen generated potential:'' @ [10] @
               bytes_of '' seed    = '' @ show_nat (unat (mSeed pot)) @ [10] @
               bytes_of '' corlen  = '' @ fmt (mCorrelationLength pot) @ [10] @
               bytes_of '' version = '' @ show_nat (unat (mPotgenVersion pot)) @ [10] @
               bytes_of '' extents = ('' @
               concat (map (\<lambda>e. show_nat (unat e) @ bytes_of '', '') (potExtents pot));
          s2 = overwrite_last2 s1 (bytes_of '')'' @ [10]) @
               bytes_of '' support = ('' @
               concat (map (\<lambda>e. fmt e @ bytes_of '', '') (mSupport pot))
      in overwrite_last2 s2 (bytes_of '')'' @ [10, 10]))"

text \<open>
  One record of the file: name length, name, the derivative index (each \<^verbatim>\<open>int\<close>
  widened to 64 bits with its sign) and the grid dump.
\<close>

definition write_entry :: "byte list \<Rightarrow> nat \<Rightarrow> IndexType \<times> grid_type \<Rightarrow> byte list" where
  "write_entry tn D entry =
     (case entry of (k, g) \<Rightarrow>
        writeInteger (word_of_nat (length (name k))) @ name k @
        concat (map (\<lambda>i. writeInteger (scast (derivations k ! i))) [0..<D]) @
        dump (double_cells tn) g)"

text \<open>
  \<^verbatim>\<open>writeToFile\<close>. \<open>tn\<close> is \<^verbatim>\<open>typeid(double).name()\<close>. The loops over the axes count
  with an \<^verbatim>\<open>unsigned\<close> against the 64-bit \<^verbatim>\<open>mDimension\<close>.
\<close>

definition writeToFile :: "(double \<Rightarrow> byte list) \<Rightarrow> byte list \<Rightarrow> Potential \<Rightarrow> error + byte list" where
  "writeToFile fmt tn pot =
     (let D = potDimension pot; histr = human_info fmt pot in
      if \<not> D < 4294967296 then Inl no_return
      else Inr (
        header @
        [32] @ show_nat (length histr) @ histr @
        writeInteger (word_of_nat D) @
        concat (map (\<lambda>i. writeFloat (mSupport pot ! i)) [0..<D]) @
        concat (map (\<lambda>i. writeInteger (potExtents pot ! i)) [0..<D]) @
        writeInteger (mSeed pot) @
        writeInteger (mPotgenVersion pot) @
        writeInteger (word_of_nat (length (potData pot))) @
        writeFloat (mCorrelationLength pot) @
        writeFloat (mStrength pot) @
        concat (map (write_entry tn D) (potData pot))))"

text \<open>
  \<^verbatim>\<open>file >> hs\<close> for a \<^verbatim>\<open>std::uint64_t\<close>: leading white space is skipped, then the
  decimal digits are read; no digit, or a value that does not fit, fails. (The optional
  sign that the library accepts is not modelled; the model fails there.)
\<close>

definition isspace :: "byte \<Rightarrow> bool" where
  "isspace b \<longleftrightarrow> b = 32 \<or> (9 \<le> b \<and> b \<le> 13)"

definition isdigit :: "byte \<Rightarrow> bool" where
  "isdigit b \<longleftrightarrow> 48 \<le> b \<and> b \<le> 57"

definition digits_value :: "byte list \<Rightarrow> nat" where
  "digits_value ds = foldl (\<lambda>a d. 10 * a + (unat d - 48)) 0 ds"

definition read_unsigned :: "byte list \<Rightarrow> error + (size_t \<times> byte list)" where
  "read_unsigned inp =
     (let s = dropWhile isspace inp; ds = takeWhile isdigit s; rest = dropWhile isdigit s in
      if ds = [] then Inl stream_failure
      else if digits_value ds \<le> 18446744073709551615 then Inr (word_of_nat (digits_value ds), rest)
      else Inl stream_failure)"

text \<open>
  One record read back: the name is read character by character in an \<^verbatim>\<open>unsigned\<close>
  loop, each index entry is a 64-bit value narrowed to \<^verbatim>\<open>int\<close>, the grid is loaded.
\<close>

definition read_entry :: "allocator \<Rightarrow> byte list \<Rightarrow> size_t \<Rightarrow> byte list
    \<Rightarrow> error + ((byte list \<times> index_type list \<times> grid_type) \<times> byte list)" where
  "read_entry alloc tn dimension inp =
     and_then (readInteger inp) (\<lambda>(namelen, r1).
     and_then (unsigned_loop_read stream_get namelen r1) (\<lambda>(nm, r2).
     and_then (unsigned_loop_read readInteger dimension r2) (\<lambda>(idx, r3).
     and_then (load alloc (double_cells tn) r3) (\<lambda>(g, r4).
       Inr ((nm, map ucast idx, g), r4)))))"

fun read_entries :: "allocator \<Rightarrow> byte list \<Rightarrow> size_t \<Rightarrow> nat \<Rightarrow> Potential \<Rightarrow> byte list
    \<Rightarrow> error + Potential" where
  "read_entries alloc tn dimension 0 pot inp = Inr pot"
| "read_entries alloc tn dimension (Suc j) pot inp =
     and_then (read_entry alloc tn dimension inp) (\<lambda>((nm, index, g), rest).
     and_then (setDerivative index g nm pot) (\<lambda>pot'.
       read_entries alloc tn dimension j pot' rest))"

text \<open>
  \<^verbatim>\<open>readFromFile\<close> on an open file. The text block is skipped by its length;
  \<open>seed0\<close> is the indeterminate seed of the fresh object, overwritten at once.
\<close>

definition readFromFile :: "allocator \<Rightarrow> byte list \<Rightarrow> size_t \<Rightarrow> byte list \<Rightarrow> error + Potential" where
  "readFromFile alloc tn seed0 file =
     and_then (stream_read 5 file) (\<lambda>(cmp, r0).
       if cmp \<noteq> header then Inl runtime_error
       else
     and_then (read_unsigned r0) (\<lambda>(hs, r1).
     and_then (readInteger (drop (unat hs) r1)) (\<lambda>(dimension, r2).
     and_then (unsigned_loop_read readFloat dimension r2) (\<lambda>(support, r3).
     and_then (unsigned_loop_read readInteger dimension r3) (\<lambda>(extents, r4).
     and_then (readInteger r4) (\<lambda>(seed, r5).
     and_then (readInteger r5) (\<lambda>(potgen, r6).
     and_then (readInteger r6) (\<lambda>(gridcount, r7).
     and_then (readFloat r7) (\<lambda>(corrlength, r8).
     and_then (readFloat r8) (\<lambda>(strength, r9).
       if \<not> gridcount < 4294967296 then Inl no_return
       else read_entries alloc tn dimension (unat gridcount)
              (setCreationInfo seed potgen corrlength (Potential_new seed0 extents support strength))
              r9))))))))))"

text \<open>
  The shape of a grid object: as many cells as the product of the extents, which the
  constructor has computed without overflow, and a supported number of axes.
\<close>

definition grid_ok :: "'v DynamicGrid \<Rightarrow> bool" where
  "grid_ok g \<longleftrightarrow>
     safe_product (mExtents g) = Inr (word_of_nat (length (mData g))) \<and>
     length (mData g) < 2 ^ 64 \<and>
     1 \<le> getDimension g \<and> getDimension g \<le> 6"


text \<open>
  The states of a \<^verbatim>\<open>Potential\<close> object that can be written and read back. The
  constructors give \<^verbatim>\<open>mDimension = mExtents.size()\<close>; \<^verbatim>\<open>writeToFile\<close> reads
  \<^verbatim>\<open>mSupport[i]\<close> for every axis, so the support has one entry per axis. The map holds
  its entries in strictly increasing key order, and \<^verbatim>\<open>setDerivative\<close> has checked the
  number of axes of every key and grid. The remaining conditions are sizes: the name
  and the number of grids are counted by an \<^verbatim>\<open>unsigned\<close> when the file is read, and
  the buffer of a grid of \<^verbatim>\<open>double\<close> has eight bytes per cell, counted in
  \<^verbatim>\<open>std::size_t\<close>.
\<close>

definition entry_ok :: "nat \<Rightarrow> IndexType \<times> grid_type \<Rightarrow> bool" where
  "entry_ok D e \<longleftrightarrow> (case e of (k, g) \<Rightarrow>
     length (name k) < 4294967296 \<and> length (derivations k) = D \<and>
     getDimension g = D \<and> grid_ok g \<and> 8 * length (mData g) < 18446744073709551616)"

definition potential_ok :: "Potential \<Rightarrow> bool" where
  "potential_ok pot \<longleftrightarrow>
     1 \<le> potDimension pot \<and> potDimension pot \<le> 3 \<and>
     length (potExtents pot) = potDimension pot \<and>
     length (mSupport pot) = potDimension pot \<and>
     length (potData pot) < 4294967296 \<and>
     sorted_wrt key_less (map fst (potData pot)) \<and>
     list_all (entry_ok (potDimension pot)) (potData pot)"

text \<open>
  An entry of the map as it comes back from a file: the same key, and the grid with the
  access mode that \<^verbatim>\<open>DynamicGrid::load\<close> gives to every grid.
\<close>

definition as_loaded :: "IndexType \<times> grid_type \<Rightarrow> IndexType \<times> grid_type" where
  "as_loaded e = (case e of (k, g) \<Rightarrow> (k, g\<lparr> mTrafoType := IDENTITY \<rparr>))"

text \<open>
  The exception of the first entry of a list whose grid does not get its storage when it
  is built again, if there is one.
\<close>

fun first_failure :: "allocator \<Rightarrow> (IndexType \<times> grid_type) list \<Rightarrow> error option" where
  "first_failure alloc [] = None"
| "first_failure alloc (e # es) =
     (case alloc (length (mData (snd e))) of Some x \<Rightarrow> Some x | None \<Rightarrow> first_failure alloc es)"


section \<open>Phase randomisation (potgen/randomize.cpp)\<close>

text \<open>\<^verbatim>\<open>std::complex<double>\<close> is modelled by the complex numbers over the reals.\<close>

type_synonym complex_grid = "complex DynamicGrid"

text \<open>A counting loop whose body may throw: \<open>for_each is f s\<close> runs \<open>f i\<close> for each \<open>i\<close> of \<open>is\<close>.\<close>

fun for_each :: "nat list \<Rightarrow> (nat \<Rightarrow> 's \<Rightarrow> error + 's) \<Rightarrow> 's \<Rightarrow> error + 's" where
  "for_each [] f s = Inr s"
| "for_each (i # is) f s = and_then (f i s) (for_each is f)"

text \<open>Division of \<^verbatim>\<open>int\<close> by a non-zero \<^verbatim>\<open>int\<close> truncates towards zero.\<close>

definition int_div :: "index_type \<Rightarrow> index_type \<Rightarrow> index_type" where
  "int_div a b = word_of_int (sgn (sint a) * sgn (sint b) * (\<bar>sint a\<bar> div \<bar>sint b\<bar>))"

text \<open>
  \<^verbatim>\<open>fft_indexing\<close>: an index over \<open>[-E/2, E/2)\<close> on every axis. An odd extent throws
  \<^verbatim>\<open>std::logic_error\<close>. The lower bound is \<^verbatim>\<open>-(int)(grid_size[i]/2)\<close> (halved as
  \<^verbatim>\<open>std::size_t\<close>, then narrowed), the upper bound \<^verbatim>\<open>(int)grid_size[i]/2\<close> (narrowed,
  then halved as \<^verbatim>\<open>int\<close>).
\<close>

definition fft_indexing :: "'v DynamicGrid \<Rightarrow> error + MultiIndex" where
  "fft_indexing grid =
     and_then (MultiIndex_new (getDimension grid)) (\<lambda>index.
     and_then (for_each [0..<getDimension grid]
                 (\<lambda>i idx. if getExtents grid ! i mod 2 \<noteq> 0 then Inl logic_error
                          else and_then (setLowerBoundAt i (- ucast (getExtents grid ! i div 2)) idx)
                                 (setUpperBoundAt i (int_div (ucast (getExtents grid ! i)) 2)))
                 index)
       init)"


text \<open>
  \<^verbatim>\<open>grid[offset] *= factor\<close>: the unchecked access \<^verbatim>\<open>GridStorage::at\<close> (its
  \<^verbatim>\<open>assert(offset < mSize)\<close> is compiled out in release builds).
\<close>

definition cell_multiply :: "size_t \<Rightarrow> complex \<Rightarrow> complex_grid \<Rightarrow> error + complex_grid" where
  "cell_multiply offset factor grid =
     (if unat offset < length (mData grid)
      then Inr (grid\<lparr> mData := (mData grid)[unat offset := mData grid ! unat offset * factor] \<rparr>)
      else Inl undefined_behaviour)"

text \<open>The two factors: \<^verbatim>\<open>complex_t(std::cos(phase), std::sin(phase))\<close> and
  \<^verbatim>\<open>rnd() < 0.5 ? 1 : -1\<close>.\<close>

definition phase_factor :: "real \<Rightarrow> complex" where
  "phase_factor phase = Complex (cos phase) (sin phase)"

definition sign_factor :: "real \<Rightarrow> complex" where
  "sign_factor u = (if u < 0.5 then 1 else - 1)"

text \<open>
  The random source \<^verbatim>\<open>std::function<double()> rnd\<close> has an internal state of some
  type \<open>'r\<close>: a call maps the state to the number drawn and the next state.

  \<open>randomize_at\<close> is the body of the loop of \<^verbatim>\<open>randomize_over_index<DIM>\<close> at one
  position of the index. (\<^verbatim>\<open>-index[i]\<close> is 32-bit negation.)
\<close>

definition randomize_at :: "nat \<Rightarrow> ('r \<Rightarrow> real \<times> 'r) \<Rightarrow> complex_grid \<times> 'r \<Rightarrow> MultiIndex
    \<Rightarrow> error + (complex_grid \<times> 'r)" where
  "randomize_at DIM rnd gr index =
     (case gr of (grid, r) \<Rightarrow>
        let inverted = map (\<lambda>i. - (mCurrentPos index ! i)) [0..<DIM];
            offset = getOffsetOf grid (mCurrentPos index);
            iffset = getOffsetOf grid inverted
        in if offset < iffset then
             (case rnd r of (phase, r') \<Rightarrow>
                and_then (cell_multiply offset (phase_factor phase) grid) (\<lambda>g1.
                and_then (cell_multiply iffset (cnj (phase_factor phase)) g1) (\<lambda>g2.
                  Inr (g2, r'))))
           else if offset = iffset then
             (case rnd r of (u, r') \<Rightarrow>
                and_then (cell_multiply offset (sign_factor u) grid) (\<lambda>g1. Inr (g1, r')))
           else Inr (grid, r))"

text \<open>
  The loop \<^verbatim>\<open>for(; index.valid(); ++index)\<close>. Its result is \<open>None\<close> if it does not
  end.
\<close>

partial_function (option) randomize_loop :: "nat \<Rightarrow> ('r \<Rightarrow> real \<times> 'r) \<Rightarrow> complex_grid \<times> 'r
    \<Rightarrow> MultiIndex \<Rightarrow> (error + (complex_grid \<times> 'r)) option" where
  "randomize_loop DIM rnd gr index =
     (if valid index then
        (case randomize_at DIM rnd gr index of
           Inl e \<Rightarrow> Some (Inl e)
         | Inr gr' \<Rightarrow> randomize_loop DIM rnd gr' (fst (increment index)))
      else Some (Inr gr))"

definition randomize_over_index :: "nat \<Rightarrow> ('r \<Rightarrow> real \<times> 'r) \<Rightarrow> complex_grid \<Rightarrow> 'r
    \<Rightarrow> MultiIndex \<Rightarrow> (error + (complex_grid \<times> 'r)) option" where
  "randomize_over_index DIM rnd grid r index =
     (if \<not> valid index then Some (Inl invalid_argument)
      else randomize_loop DIM rnd (grid, r) index)"

definition randomize_generic :: "('r \<Rightarrow> real \<times> 'r) \<Rightarrow> complex_grid \<Rightarrow> 'r
    \<Rightarrow> MultiIndex \<Rightarrow> (error + (complex_grid \<times> 'r)) option" where
  "randomize_generic rnd grid r index =
     (if getDimension grid = 1 then randomize_over_index 1 rnd grid r index
      else if getDimension grid = 2 then randomize_over_index 2 rnd grid r index
      else if getDimension grid = 3 then randomize_over_index 3 rnd grid r index
      else Some (Inl logic_error))"

text \<open>
  \<^verbatim>\<open>MultiIndex::split\<close>. The boundaries are computed in \<^verbatim>\<open>int\<close>: a result outside the
  range of \<^verbatim>\<open>int\<close> is an overflow. \<open>split_step\<close> is one round of the loop, on the
  list of parts built so far and the last boundary.
\<close>

definition int_ok :: "int \<Rightarrow> bool" where
  "int_ok x \<longleftrightarrow> - 2147483648 \<le> x \<and> x \<le> 2147483647"

definition split_step :: "MultiIndex \<Rightarrow> nat \<Rightarrow> nat \<Rightarrow> MultiIndex list \<times> index_type
    \<Rightarrow> error + (MultiIndex list \<times> index_type)" where
  "split_step this n i st =
     (case st of (result, last_boundary) \<Rightarrow>
        and_then (setLowerBoundAt 0 last_boundary (this\<lparr> mIsValid := False \<rparr>)) (\<lambda>sub1.
          let range = sint (mUpperBound this ! 0) - sint (mLowerBound this ! 0);
              product = sint (word_of_nat (i + 1) :: index_type) * range;
              quotient = sgn product * sgn (sint (word_of_nat n :: index_type)) *
                         (\<bar>product\<bar> div \<bar>sint (word_of_nat n :: index_type)\<bar>);
              next = quotient + sint (mLowerBound this ! 0)
          in if \<not> int_ok range \<or> \<not> int_ok product \<or> \<not> int_ok next then Inl undefined_behaviour
             else
               and_then (setUpperBoundAt 0 (word_of_int next) sub1) (\<lambda>sub2.
                 if last_boundary = word_of_int next then Inr (result, last_boundary)
                 else and_then (init sub2) (\<lambda>sub3. Inr (result @ [sub3], word_of_int next)))))"

definition split :: "MultiIndex \<Rightarrow> nat \<Rightarrow> error + MultiIndex list" where
  "split this n =
     (if n = 0 then Inl domain_error
      else if \<not> n < 4294967296 then Inl no_return
      else and_then (for_each [0..<n] (split_step this n) ([], mLowerBound this ! 0))
             (\<lambda>(result, last_boundary). Inr result))"

text \<open>
  The number of tasks: \<^verbatim>\<open>max(1u, min(64u, unsigned(grid.size() / (128*128*128))))\<close>.
\<close>

definition thread_count :: "'v DynamicGrid \<Rightarrow> nat" where
  "thread_count grid =
     max 1 (min 64 (unat (ucast (word_of_nat (length (mData grid)) div 2097152 :: size_t) :: 32 word)))"

text \<open>
  \<^verbatim>\<open>randomizePhases\<close>. The generator of the \<open>k\<close>-th task is seeded from the values the
  seed engine yields for it, which depend on the seed and on \<open>k\<close> only: \<open>worker seed k\<close>
  is its initial state. Each task runs \<open>randomize_generic\<close> on the shared grid over its
  own part of the index. The tasks of the program run concurrently; a task writes the
  cell of a position of its part and the cell of the inverted position, and only where
  the offset of the position is the smaller of the two, so no cell is written by two
  tasks and the result is that of running the tasks one after the other, as here. An
  exception thrown in a task stays in its future, which is discarded: the task then
  leaves the grid as it was.
\<close>

fun run_tasks :: "('r \<Rightarrow> real \<times> 'r) \<Rightarrow> (nat \<Rightarrow> 'r) \<Rightarrow> nat \<Rightarrow> MultiIndex list \<Rightarrow> complex_grid
    \<Rightarrow> (error + complex_grid) option" where
  "run_tasks rnd gen k [] grid = Some (Inr grid)"
| "run_tasks rnd gen k (sub # subs) grid =
     (case randomize_generic rnd grid (gen k) sub of
        None \<Rightarrow> None
      | Some (Inl e) \<Rightarrow>
          if e = undefined_behaviour then Some (Inl e) else run_tasks rnd gen (Suc k) subs grid
      | Some (Inr (grid', r')) \<Rightarrow> run_tasks rnd gen (Suc k) subs grid')"

definition randomizePhases :: "('r \<Rightarrow> real \<times> 'r) \<Rightarrow> (64 word \<Rightarrow> nat \<Rightarrow> 'r) \<Rightarrow> complex_grid
    \<Rightarrow> 64 word \<Rightarrow> (error + complex_grid) option" where
  "randomizePhases rnd worker grid seed =
     (case fft_indexing grid of
        Inl e \<Rightarrow> Some (Inl e)
      | Inr index \<Rightarrow>
          (case split index (thread_count grid) of
             Inl e \<Rightarrow> Some (Inl e)
           | Inr sub_indices \<Rightarrow> run_tasks rnd (worker seed) 0 sub_indices grid))"

text \<open>
  The FFT-centred indices of a grid, \<open>[-E/2, E/2)\<close> on every axis, and the Hermitian
  symmetry \<open>G[n] = conj(G[-n])\<close> over them, read through \<open>getOffsetOf\<close>.
\<close>

definition fft_index :: "size_t list \<Rightarrow> index_type list \<Rightarrow> bool" where
  "fft_index extents n \<longleftrightarrow>
     length n = length extents \<and>
     list_all2 (\<lambda>e x. - int (unat e div 2) \<le> sint x \<and> sint x < int (unat e div 2)) extents n"

definition cell_at :: "complex_grid \<Rightarrow> index_type list \<Rightarrow> complex" where
  "cell_at g n = mData g ! unat (getOffsetOf g n)"

definition hermitian :: "complex_grid \<Rightarrow> bool" where
  "hermitian g \<longleftrightarrow> (\<forall>n. fft_index (mExtents g) n \<longrightarrow> cell_at g n = cnj (cell_at g (map uminus n)))"

subsection \<open>Notions for the proof that the Hermitian symmetry is kept\<close>

text \<open>
  The offset that \<open>FFTIndexFn\<close> computes, as a natural number: on each axis the
  index entry is reduced modulo the extent (\<open>fft_digit\<close>), and the digits are combined
  row-major (\<open>fft_offset\<close>). \<open>near e x\<close> says that the entry \<open>x\<close> lies in
  \<open>[-e/2, e/2]\<close>, the range that contains an FFT-centred entry and its negation.
\<close>

definition fft_digit :: "size_t \<Rightarrow> index_type \<Rightarrow> nat" where
  "fft_digit e x = nat (sint x mod uint e)"

definition fft_offset :: "nat \<Rightarrow> index_type list \<Rightarrow> size_t list \<Rightarrow> nat" where
  "fft_offset D n E = foldl (\<lambda>off i. off * unat (E ! i) + fft_digit (E ! i) (n ! i)) 0 [0..<D]"

definition near :: "size_t \<Rightarrow> index_type \<Rightarrow> bool" where
  "near e x \<longleftrightarrow> - (uint e div 2) \<le> sint x \<and> sint x \<le> uint e div 2"

definition near_index :: "size_t list \<Rightarrow> index_type list \<Rightarrow> bool" where
  "near_index E n \<longleftrightarrow> (\<forall>i<length E. near (E ! i) (n ! i))"

text \<open>
  The grids that \<^verbatim>\<open>randomizePhases\<close> is meant for: FFT access mode, a grid object of
  at most three axes, every extent even and not zero. The two size bounds keep the
  \<^verbatim>\<open>int\<close> arithmetic of \<^verbatim>\<open>fft_indexing\<close> and \<^verbatim>\<open>MultiIndex::split\<close> in range:
  every extent fits an \<^verbatim>\<open>int\<close>, and so does the number of tasks times the extent of
  the first axis (the largest product \<^verbatim>\<open>int(i+1) * range\<close> that \<^verbatim>\<open>split\<close> forms).
\<close>

definition fft_grid_ok :: "complex_grid \<Rightarrow> bool" where
  "fft_grid_ok g \<longleftrightarrow>
     mTrafoType g = FFT_INDEX \<and> grid_ok g \<and> getDimension g \<le> 3 \<and>
     list_all (\<lambda>e. e mod 2 = 0 \<and> e \<noteq> 0 \<and> e < 2147483648) (mExtents g) \<and>
     int (thread_count g) * uint (mExtents g ! 0) < 2147483648"

text \<open>
  A part of the FFT index as \<^verbatim>\<open>split\<close> returns it: an index object of the grid's
  dimension that satisfies the invariant of a valid index and whose bounds lie in
  \<open>[-E/2, E/2]\<close> on every axis. \<open>fft_bounded\<close> says that the bounds of the first
  \<open>k\<close> axes are exactly \<open>-E/2\<close> and \<open>E/2\<close>.
\<close>

definition sub_ok :: "size_t list \<Rightarrow> MultiIndex \<Rightarrow> bool" where
  "sub_ok E idx \<longleftrightarrow>
     storage_ok idx \<and> mDimension idx = length E \<and> index_invariant idx \<and>
     (\<forall>i<length E. - (uint (E ! i) div 2) \<le> sint (mLowerBound idx ! i) \<and>
                     sint (mUpperBound idx ! i) \<le> uint (E ! i) div 2)"

definition fft_bounded :: "size_t list \<Rightarrow> MultiIndex \<Rightarrow> nat \<Rightarrow> bool" where
  "fft_bounded E idx k \<longleftrightarrow>
     (\<forall>j<k. sint (mLowerBound idx ! j) = - (uint (E ! j) div 2) \<and>
            sint (mUpperBound idx ! j) = uint (E ! j) div 2)"

text \<open>
  The order in which the loop of \<^verbatim>\<open>randomize_over_index\<close> ends: an index that is no
  longer valid comes before a valid one, and among valid indices the distances of the
  position to the upper bounds decrease lexicographically with each increment.
\<close>

definition left_on_axis :: "nat \<Rightarrow> MultiIndex \<Rightarrow> nat" where
  "left_on_axis i idx = nat (sint (mUpperBound idx ! i) - sint (mCurrentPos idx ! i))"

definition loop_order :: "(MultiIndex \<times> MultiIndex) set" where
  "loop_order = measures [\<lambda>idx. if valid idx then 1 else 0,
     left_on_axis 0, left_on_axis 1, left_on_axis 2, left_on_axis 3]"

section \<open>Tracer: states, dynamics, initial conditions, caustic observer\<close>

text \<open>
  In the tracer a \<^verbatim>\<open>double\<close> is used for arithmetic and is modelled by a real number;
  \<^verbatim>\<open>gen_vect\<close> (a \<^verbatim>\<open>c_vector<double, 3>\<close>) is a list of reals and \<^verbatim>\<open>gen_mat\<close> a list
  of rows. Rounding is not modelled. Where the dynamics divide by zero, IEEE arithmetic
  yields a NaN or an infinity and the run goes on with it; the model returns
  \<open>not_a_number\<close> there. The caustic observer stores the outcome of such a division in
  its records: there a \<^verbatim>\<open>double\<close> that may be a NaN is a \<open>real option\<close>, with \<open>None\<close> for
  the NaN.
\<close>

type_synonym gen_vect = "real list"
type_synonym gen_mat = "real list list"

record State =
  stDimension :: nat
  mPosition :: gen_vect
  mVelocity :: gen_vect
  mMatrix :: gen_mat




subsection \<open>ParticleInPotentialDynamics (tracer/dynamics/ParticleInPotentialDynamics.cpp)\<close>





subsection \<open>RadialWave2D (tracer/initial_conditions/radial_wave.cpp)\<close>

record RadialWave2D =
  mWorldDimension :: nat
  mStartingPos :: gen_vect

text \<open>
  The constructor: the base class rejects a world dimension of 0 (the manifold
  dimension 1 exceeds twice the world dimension), a \<^verbatim>\<open>gen_vect\<close> holds at most three
  entries, and the body rejects a dimension below 2. The origin starts at 0.5 on every
  axis.
\<close>

definition RadialWave2D_new :: "nat \<Rightarrow> error + RadialWave2D" where
  "RadialWave2D_new d =
     (if 1 > 2 * d then Inl logic_error
      else if d > 3 then Inl domain_error
      else if d < 2 then Inl logic_error
      else Inr \<lparr> mWorldDimension = d, mStartingPos = replicate d 0.5 \<rparr>)"

definition setOrigin :: "gen_vect \<Rightarrow> RadialWave2D \<Rightarrow> error + RadialWave2D" where
  "setOrigin origin w =
     (if length origin \<noteq> mWorldDimension w then Inl invalid_argument
      else Inr (w\<lparr> mStartingPos := origin \<rparr>))"

text \<open>
  \<^verbatim>\<open>RadialWave2D::generate\<close> writes its two reference arguments; the model returns their
  new values \<open>(ray_position, ray_velocity)\<close>.
\<close>

definition RadialWave2D_generate :: "RadialWave2D \<Rightarrow> gen_vect \<Rightarrow> gen_vect \<Rightarrow> gen_vect
    \<Rightarrow> gen_vect \<times> gen_vect" where
  "RadialWave2D_generate w ray_position ray_velocity position =
     (let param = position ! 0 in
      (mStartingPos w,
       ray_velocity[0 := sin (param * 2 * pi), 1 := cos (param * 2 * pi)]))"

subsection \<open>CausticObserver (tracer/observers/caustic_observer.cpp, common/caustic.hpp)\<close>

text \<open>An initial condition: the starting state and the deltas along the manifold axes.\<close>

record InitialCondition =
  mCurrentState :: State
  mDeltas :: "State list"

text \<open>
  A caustic record. The position, the velocity and the time at the caustic come from
  the interpolation and may be NaN.
\<close>

record Caustic =
  mTrajectory :: "64 word"
  mCausticPosition :: "real option list"
  mInitialPosition :: gen_vect
  mCausticVelocity :: "real option list"
  mInitialVelocity :: gen_vect
  mTime :: "real option"
  mIndex :: "8 word"

record CausticObserver =
  mBreakOnFirst :: bool
  obsDimension :: nat
  mCausticCount :: size_t
  mParticleNumber :: size_t
  mOldArea :: real
  mOldPosition :: gen_vect
  mOldVelocity :: gen_vect
  mOldTime :: real
  mCachedInitialCondition :: InitialCondition
  mCausticPositions :: "Caustic list"




text \<open>
  The constructor accepts the dimensions 2 and 3 only; \<open>rest\<close> gives the members that
  the constructor leaves to their defaults or uninitialised.
\<close>

definition CausticObserver_new :: "nat \<Rightarrow> bool \<Rightarrow> CausticObserver \<Rightarrow> error + CausticObserver" where
  "CausticObserver_new dimension breakOnFirst rest =
     (if dimension < 2 \<or> dimension > 3 then Inl invalid_argument
      else Inr (rest\<lparr> mBreakOnFirst := breakOnFirst, obsDimension := dimension,
                      mCausticCount := 0, mParticleNumber := 0, mOldArea := 0,
                      mCausticPositions := [] \<rparr>))"





section \<open>Properties of MultiIndex\<close>

lemma and_then_Inr [simp]: "and_then (Inr x) f = f x"
  by (simp add: and_then_def)

lemma and_then_Inl [simp]: "and_then (Inl e) f = Inl e"
  by (simp add: and_then_def)

lemma sint_succ_below:
  fixes c u :: index_type
  assumes "c <s u"
  shows "sint (c + 1) = sint c + 1"
proof -
  have "sint c < sint u" using assms by (simp add: word_sless_alt)
  moreover have "sint u < 2 ^ 31" using sint_lt [of u] by simp
  moreover have "- (2 ^ 31) \<le> sint c" using sint_ge [of c] by simp
  ultimately have "- (2 ^ 31) \<le> sint c + 1 \<and> sint c + 1 < 2 ^ 31" by simp
  then have "signed_take_bit 31 (sint c + 1) = sint c + 1"
    by (simp add: signed_take_bit_int_eq_self)
  then show ?thesis by (simp add: sint_word_add)
qed

lemma in_box_iff:
  "in_box idx \<longleftrightarrow>
     (\<forall>i < mDimension idx.
        mLowerBound idx ! i <=s mCurrentPos idx ! i \<and>
        mCurrentPos idx ! i <s mUpperBound idx ! i \<and>
        mLowerBound idx ! i <s mUpperBound idx ! i)"
  by (auto simp: in_box_def list_all_iff)

lemma increment_from_box:
  assumes "\<forall>i < D. lo ! i <=s cur ! i \<and> cur ! i <s up ! i \<and> lo ! i <s up ! i"
    and "n \<le> D" and "D \<le> length cur"
    and "increment_from n lo up cur = (cur', r)"
  shows "(\<forall>i < D. lo ! i <=s cur' ! i \<and> cur' ! i <s up ! i \<and> lo ! i <s up ! i)
         \<and> length cur' = length cur"
  using assms
proof (induction n arbitrary: cur)
  case 0
  then show ?case by simp
next
  case (Suc n)
  let ?c1 = "cur[n := cur ! n + 1]"
  have n: "n < D" "n < length cur" using Suc.prems by simp_all
  have cn: "cur ! n <s up ! n" "lo ! n <=s cur ! n" "lo ! n <s up ! n"
    using Suc.prems(1) n by simp_all
  show ?case
  proof (cases "?c1 ! n <s up ! n")
    case True
    then have eq: "cur' = ?c1" using Suc.prems(4) by (simp add: Let_def)
    have "sint (cur ! n + 1) = sint (cur ! n) + 1" using cn(1) by (rule sint_succ_below)
    then have "lo ! n <=s cur ! n + 1" using cn(2) by (simp add: word_sle_eq)
    then show ?thesis using True Suc.prems(1) n unfolding eq
      by (auto simp: nth_list_update)
  next
    case False
    let ?c2 = "?c1[n := lo ! n]"
    from False have rec: "increment_from n lo up ?c2 = (cur', r)"
      using Suc.prems(4) by (simp add: Let_def)
    have box: "\<forall>i < D. lo ! i <=s ?c2 ! i \<and> ?c2 ! i <s up ! i \<and> lo ! i <s up ! i"
      using Suc.prems(1) n cn by (auto simp: nth_list_update)
    have "(\<forall>i < D. lo ! i <=s cur' ! i \<and> cur' ! i <s up ! i \<and> lo ! i <s up ! i)
         \<and> length cur' = length ?c2"
      by (rule Suc.IH [OF box _ _ rec]) (use Suc.prems in simp_all)
    then show ?thesis by simp
  qed
qed

lemma increment_keeps_invariant:
  assumes "storage_ok idx" and "index_invariant idx"
  shows "index_invariant (fst (increment idx))"
proof (cases "valid idx")
  case False
  then show ?thesis
    by (auto simp: increment_def index_invariant_def valid_def split: prod.splits option.splits)
next
  case True
  then have box: "in_box idx" using assms(2) by (simp add: index_invariant_def)
  obtain cur' r where r: "increment_from (mDimension idx) (mLowerBound idx) (mUpperBound idx)
      (mCurrentPos idx) = (cur', r)"
    by (cases "increment_from (mDimension idx) (mLowerBound idx) (mUpperBound idx) (mCurrentPos idx)")
  have "\<forall>i < mDimension idx. mLowerBound idx ! i <=s cur' ! i \<and> cur' ! i <s mUpperBound idx ! i
       \<and> mLowerBound idx ! i <s mUpperBound idx ! i"
    using increment_from_box [OF _ _ _ r, of "mDimension idx"] box assms(1)
    by (simp add: in_box_iff storage_ok_def)
  then show ?thesis using r
    by (auto simp: increment_def index_invariant_def in_box_iff valid_def split: option.splits)
qed

lemma init_establishes:
  assumes "init idx = Inr idx'"
  shows "valid idx' \<and> in_box idx'"
  using assms
  by (auto simp: init_def in_box_iff valid_def list_ex_iff word_sless_alt word_sle_eq not_le
      split: if_splits)

lemma init_rejects_empty:
  assumes "i < mDimension idx" "mUpperBound idx ! i <=s mLowerBound idx ! i"
  shows "init idx = Inl logic_error"
  using assms by (auto simp: init_def list_ex_iff)

lemma setUpperBoundDynamic_keeps:
  assumes "storage_ok idx" "index_invariant idx" "setUpperBoundDynamic d ub idx = Inr idx'"
  shows "index_invariant idx'"
  using assms
  by (auto simp: setUpperBoundDynamic_def array_at_def index_invariant_def in_box_iff valid_def
      storage_ok_def nth_list_update word_sless_alt word_sle_eq
      split: if_splits sum.splits)

lemma setUpperBoundDynamic_rejects:
  assumes "storage_ok idx" "d < MAX_MULTIINDEX_DIMENSION"
    "ub <=s mLowerBound idx ! d \<or> ub <=s mCurrentPos idx ! d"
  shows "setUpperBoundDynamic d ub idx = Inl logic_error"
  using assms
  by (auto simp: setUpperBoundDynamic_def array_at_def storage_ok_def)

text \<open>
  Claim C10. Whenever a MultiIndex is valid, on every axis \<open>i\<close> below its dimension
  \<open>lower[i] \<le> current[i] < upper[i]\<close> and \<open>lower[i] < upper[i]\<close> (this is
  \<open>index_invariant\<close>, with signed 32-bit comparisons). The invariant is established by
  \<open>init\<close>, which rejects any axis with \<open>lower \<ge> upper\<close> with \<^verbatim>\<open>std::logic_error\<close>; it
  is preserved by \<open>increment\<close>, which clears the validity flag instead of leaving the
  box; and it is preserved by \<open>setUpperBoundDynamic\<close>, which rejects a new upper bound
  at or below the current position or the lower bound.
\<close>

theorem multiindex_invariant:
  assumes "storage_ok idx"
  shows "(index_invariant idx \<longleftrightarrow>
            (valid idx \<longrightarrow> (\<forall>i < mDimension idx.
                mLowerBound idx ! i <=s mCurrentPos idx ! i \<and>
                mCurrentPos idx ! i <s mUpperBound idx ! i \<and>
                mLowerBound idx ! i <s mUpperBound idx ! i)))
       \<and> (\<forall>idx'. init idx = Inr idx' \<longrightarrow> valid idx' \<and> index_invariant idx')
       \<and> ((\<exists>i < mDimension idx. mUpperBound idx ! i <=s mLowerBound idx ! i)
             \<longrightarrow> init idx = Inl logic_error)
       \<and> (index_invariant idx \<longrightarrow> index_invariant (fst (increment idx)))
       \<and> (\<forall>d ub idx'. index_invariant idx \<longrightarrow> setUpperBoundDynamic d ub idx = Inr idx'
             \<longrightarrow> index_invariant idx')
       \<and> (\<forall>d ub. d < MAX_MULTIINDEX_DIMENSION \<longrightarrow>
             (ub <=s mLowerBound idx ! d \<or> ub <=s mCurrentPos idx ! d)
             \<longrightarrow> setUpperBoundDynamic d ub idx = Inl logic_error)"
proof (intro conjI allI impI)
  show "index_invariant idx \<longleftrightarrow>
            (valid idx \<longrightarrow> (\<forall>i < mDimension idx.
                mLowerBound idx ! i <=s mCurrentPos idx ! i \<and>
                mCurrentPos idx ! i <s mUpperBound idx ! i \<and>
                mLowerBound idx ! i <s mUpperBound idx ! i))"
    by (simp add: index_invariant_def in_box_iff)
next
  fix idx' assume "init idx = Inr idx'"
  then show "valid idx'" by (simp add: init_establishes)
next
  fix idx' assume "init idx = Inr idx'"
  then show "index_invariant idx'" by (simp add: init_establishes index_invariant_def)
next
  assume "\<exists>i < mDimension idx. mUpperBound idx ! i <=s mLowerBound idx ! i"
  then show "init idx = Inl logic_error" by (auto intro: init_rejects_empty)
next
  assume "index_invariant idx"
  then show "index_invariant (fst (increment idx))"
    using assms by (simp add: increment_keeps_invariant)
next
  fix d ub idx' assume "index_invariant idx" "setUpperBoundDynamic d ub idx = Inr idx'"
  then show "index_invariant idx'" using assms by (rule setUpperBoundDynamic_keeps [rotated])
next
  fix d ub assume "d < MAX_MULTIINDEX_DIMENSION"
    "ub <=s mLowerBound idx ! d \<or> ub <=s mCurrentPos idx ! d"
  then show "setUpperBoundDynamic d ub idx = Inl logic_error"
    using assms by (simp add: setUpperBoundDynamic_rejects)
qed

theorem multiindex_invariant_witness:
  "storage_ok \<lparr> mLowerBound = [0, 0, 0, 0], mUpperBound = [2, 3, 0, 0],
                mCurrentPos = [0, 0, 0, 0], mDimension = 2, mIsValid = False \<rparr>
   \<and> init \<lparr> mLowerBound = [0, 0, 0, 0], mUpperBound = [2, 3, 0, 0],
            mCurrentPos = [0, 0, 0, 0], mDimension = 2, mIsValid = False \<rparr>
       = Inr \<lparr> mLowerBound = [0, 0, 0, 0], mUpperBound = [2, 3, 0, 0],
               mCurrentPos = [0, 0, 0, 0], mDimension = 2, mIsValid = True \<rparr>
   \<and> index_invariant \<lparr> mLowerBound = [0, 0, 0, 0], mUpperBound = [2, 3, 0, 0],
               mCurrentPos = [0, 0, 0, 0], mDimension = 2, mIsValid = True \<rparr>
   \<and> index_invariant (fst (increment \<lparr> mLowerBound = [0, 0, 0, 0], mUpperBound = [2, 3, 0, 0],
               mCurrentPos = [1, 2, 0, 0], mDimension = 2, mIsValid = True \<rparr>))
   \<and> init \<lparr> mLowerBound = [0, 5, 0, 0], mUpperBound = [2, 3, 0, 0],
            mCurrentPos = [0, 0, 0, 0], mDimension = 2, mIsValid = False \<rparr> = Inl logic_error
   \<and> index_invariant \<lparr> mLowerBound = [0, 0, 0, 0], mUpperBound = [2, 7, 0, 0],
               mCurrentPos = [1, 2, 0, 0], mDimension = 2, mIsValid = True \<rparr>
   \<and> setUpperBoundDynamic 1 2 \<lparr> mLowerBound = [0, 0, 0, 0], mUpperBound = [2, 3, 0, 0],
               mCurrentPos = [1, 2, 0, 0], mDimension = 2, mIsValid = True \<rparr> = Inl logic_error"
proof -
  let ?a = "\<lparr> mLowerBound = [0, 0, 0, 0], mUpperBound = [2, 3, 0, 0],
              mCurrentPos = [0, 0, 0, 0 :: index_type], mDimension = 2, mIsValid = False \<rparr>"
  let ?b = "\<lparr> mLowerBound = [0, 0, 0, 0], mUpperBound = [2, 3, 0, 0],
              mCurrentPos = [1, 2, 0, 0 :: index_type], mDimension = 2, mIsValid = True \<rparr>"
  let ?c = "\<lparr> mLowerBound = [0, 5, 0, 0], mUpperBound = [2, 3, 0, 0],
              mCurrentPos = [0, 0, 0, 0 :: index_type], mDimension = 2, mIsValid = False \<rparr>"
  have sa: "storage_ok ?a" and sb: "storage_ok ?b" and sc: "storage_ok ?c"
    by (simp_all add: storage_ok_def MAX_MULTIINDEX_DIMENSION_def)
  have ia: "init ?a = Inr (?a\<lparr> mCurrentPos := [0, 0, 0, 0], mIsValid := True \<rparr>)"
    by code_simp
  have ib: "index_invariant ?b" by code_simp
  have ub: "setUpperBoundDynamic 1 7 ?b = Inr (?b\<lparr> mUpperBound := [2, 7, 0, 0] \<rparr>)"
    by code_simp
  have ec: "\<exists>i < mDimension ?c. mUpperBound ?c ! i <=s mLowerBound ?c ! i"
    by (rule exI [of _ 1]) simp
  have le: "(2 :: index_type) <=s mLowerBound ?b ! 1 \<or> 2 <=s mCurrentPos ?b ! 1" by simp
  show ?thesis
    using sa ia ib ub ec le
      multiindex_invariant [OF sa] multiindex_invariant [OF sb] multiindex_invariant [OF sc]
    by (simp add: MAX_MULTIINDEX_DIMENSION_def)
qed

section \<open>Properties of DynamicGrid\<close>

lemma for_each_fails:
  assumes "i \<in> set js" "I s"
    and "\<And>s. I s \<Longrightarrow> f i s = Inl e"
    and "\<And>j s. j \<in> set js \<Longrightarrow> I s \<Longrightarrow> f j s = Inl e \<or> (\<exists>s'. f j s = Inr s' \<and> I s')"
  shows "for_each js f s = Inl e"
  using assms
proof (induction js arbitrary: s)
  case Nil then show ?case by simp
next
  case (Cons j js)
  show ?case
  proof (cases "f j s")
    case (Inl e')
    then have "e' = e" using Cons.prems(4)[of j s] Cons.prems(2) by auto
    then show ?thesis using Inl by simp
  next
    case (Inr s')
    then have "j \<noteq> i" using Cons.prems(3)[of s] Cons.prems(2) by auto
    then have i: "i \<in> set js" using Cons.prems(1) by simp
    have s': "I s'" using Cons.prems(4)[of j s] Cons.prems(2) Inr by auto
    have "for_each js f s' = Inl e"
      by (rule Cons.IH [OF i s' Cons.prems(3)]) (use Cons.prems(4) in auto)
    then show ?thesis using Inr by simp
  qed
qed

lemma fft_indexing_odd:
  assumes "i < getDimension grid" "odd (unat (getExtents grid ! i))"
  shows "fft_indexing grid = Inl logic_error"
proof (cases "getDimension grid > MAX_MULTIINDEX_DIMENSION")
  case True
  then show ?thesis by (simp add: fft_indexing_def MultiIndex_new_def)
next
  case False
  define I where "I = (\<lambda>idx. storage_ok idx \<and> \<not> valid idx)"
  define idx0 where "idx0 = \<lparr> mLowerBound = replicate MAX_MULTIINDEX_DIMENSION 0,
                 mUpperBound = replicate MAX_MULTIINDEX_DIMENSION 0,
                 mCurrentPos = replicate MAX_MULTIINDEX_DIMENSION (0::index_type),
                 mDimension = getDimension grid,
                 mIsValid = False \<rparr>"
  have new: "MultiIndex_new (getDimension grid) = Inr idx0"
    using False by (simp add: MultiIndex_new_def idx0_def)
  have I0: "I idx0" using False by (simp add: I_def idx0_def storage_ok_def valid_def)
  have oddw: "getExtents grid ! i mod 2 \<noteq> 0"
  proof
    assume "getExtents grid ! i mod 2 = 0"
    then have "unat (getExtents grid ! i mod 2) = 0" by simp
    then have "unat (getExtents grid ! i) mod 2 = 0" by (simp add: unat_mod)
    then show False using assms(2) by presburger
  qed
  have "for_each [0..<getDimension grid]
                 (\<lambda>i idx. if getExtents grid ! i mod 2 \<noteq> 0 then Inl logic_error
                          else and_then (setLowerBoundAt i (- ucast (getExtents grid ! i div 2)) idx)
                                 (setUpperBoundAt i (int_div (ucast (getExtents grid ! i)) 2)))
                 idx0 = Inl logic_error"
  proof (rule for_each_fails [where I = I and i = i])
    show "i \<in> set [0..<getDimension grid]" using assms(1) by simp
    show "I idx0" by (rule I0)
    show "\<And>s. I s \<Longrightarrow> (if getExtents grid ! i mod 2 \<noteq> 0 then Inl logic_error
          else and_then (setLowerBoundAt i (- ucast (getExtents grid ! i div 2)) s)
                 (setUpperBoundAt i (int_div (ucast (getExtents grid ! i)) 2))) = Inl logic_error"
      using oddw by simp
    show "\<And>j s. j \<in> set [0..<getDimension grid] \<Longrightarrow> I s \<Longrightarrow>
       (if getExtents grid ! j mod 2 \<noteq> 0 then Inl logic_error
          else and_then (setLowerBoundAt j (- ucast (getExtents grid ! j div 2)) s)
                 (setUpperBoundAt j (int_div (ucast (getExtents grid ! j)) 2))) = Inl logic_error \<or>
       (\<exists>s'. (if getExtents grid ! j mod 2 \<noteq> 0 then Inl logic_error
          else and_then (setLowerBoundAt j (- ucast (getExtents grid ! j div 2)) s)
                 (setUpperBoundAt j (int_div (ucast (getExtents grid ! j)) 2))) = Inr s' \<and> I s')"
      using False
      by (auto simp: I_def setLowerBoundAt_def setUpperBoundAt_def storage_ok_def valid_def)
  qed
  then show ?thesis using new by (simp add: fft_indexing_def)
qed

lemma getIndexFn_ok:
  assumes "1 \<le> n" "n \<le> 6"
  shows "getIndexFn trafo n = Inr (getIndexFnTemplate n trafo)"
proof -
  have "n \<in> {1,2,3,4,5,6}" using assms by auto
  then show ?thesis by (auto simp: getIndexFn_def)
qed

lemma setAccessMode_ok:
  assumes "1 \<le> getDimension g" "getDimension g \<le> 6"
  shows "setAccessMode type g = Inr (g\<lparr> mTrafoType := type \<rparr>)"
  using getIndexFn_ok [OF assms] by (simp add: setAccessMode_def)

lemma catch_bad_alloc_simps [simp]:
  "catch_bad_alloc (Inr x) = Inr x"
  "catch_bad_alloc (Inl e) = Inl (if e = bad_alloc then runtime_error else e)"
  by (simp_all add: catch_bad_alloc_def)

lemma DynamicGrid_new_ok:
  assumes "1 \<le> length sizes" "length sizes \<le> 6" "safe_product sizes = Inr n"
  shows "DynamicGrid_new alloc sizes indexing =
     (case alloc (unat n) of
        None \<Rightarrow> Inr \<lparr> mData = replicate (unat n) 0, mExtents = sizes, mTrafoType = indexing \<rparr>
      | Some e \<Rightarrow> Inl (if e = bad_alloc then runtime_error else e))"
  using assms
  by (simp add: DynamicGrid_new_def GridStorage_create_def setAccessMode_ok getDimension_def
      split: option.splits)

text \<open>
  Claim C6, as stated: constructing a grid with FFT-centred access mode, or switching a
  grid to that mode, fails when an extent is odd. It does not: where the storage of
  three cells can be allocated, a grid of the single extent 3 is constructed in
  FFT-centred mode, and an existing grid of extent 3 is switched to it.
\<close>

theorem fft_mode_odd_extent_counterexample:
  "(DynamicGrid_new unlimited [3] FFT_INDEX :: error + complex_grid) =
      Inr \<lparr> mData = [0, 0, 0], mExtents = [3], mTrafoType = FFT_INDEX \<rparr>
   \<and> setAccessMode FFT_INDEX \<lparr> mData = [0, 0, 0 :: complex], mExtents = [3], mTrafoType = IDENTITY \<rparr> =
      Inr \<lparr> mData = [0, 0, 0], mExtents = [3], mTrafoType = FFT_INDEX \<rparr>"
  by code_simp

text \<open>
  Claim C6, amended. Neither the constructor nor \<open>setAccessMode\<close> looks at the parity
  of the extents. Switching to FFT-centred mode succeeds on every grid of 1 to 6 axes.
  Construction in that mode, for 1 to 6 axes and a cell count \<open>n\<close> that does not
  overflow, depends on the allocation of the storage alone: it yields the grid of \<open>n\<close>
  zero cells when the storage is created, and otherwise the exception of the allocation,
  with \<^verbatim>\<open>std::runtime_error\<close> in place of \<^verbatim>\<open>std::bad_alloc\<close>. So a live FFT-centred grid
  may have odd extents. An odd extent is rejected only where FFT-centred indices are
  generated: \<open>fft_indexing\<close> throws \<^verbatim>\<open>std::logic_error\<close> for a grid with an odd extent.
\<close>

theorem fft_mode_ignores_parity:
  "(1 \<le> getDimension g \<and> getDimension g \<le> 6 \<longrightarrow>
      setAccessMode FFT_INDEX g = Inr (g\<lparr> mTrafoType := FFT_INDEX \<rparr>))
   \<and> (1 \<le> length sizes \<and> length sizes \<le> 6 \<and> safe_product sizes = Inr n \<longrightarrow>
      (DynamicGrid_new alloc sizes FFT_INDEX :: error + ('v::zero) DynamicGrid) =
        (case alloc (unat n) of
           None \<Rightarrow> Inr \<lparr> mData = replicate (unat n) 0, mExtents = sizes, mTrafoType = FFT_INDEX \<rparr>
         | Some e \<Rightarrow> Inl (if e = bad_alloc then runtime_error else e)))
   \<and> (i < getDimension g \<and> odd (unat (getExtents g ! i)) \<longrightarrow> fft_indexing g = Inl logic_error)"
  by (auto simp: setAccessMode_ok DynamicGrid_new_ok intro: fft_indexing_odd)

theorem fft_mode_ignores_parity_witness:
  "getDimension \<lparr> mData = [0, 0, 0, 0, 0 :: complex], mExtents = [5], mTrafoType = PERIODIC \<rparr> = 1
   \<and> setAccessMode FFT_INDEX \<lparr> mData = [0, 0, 0, 0, 0 :: complex], mExtents = [5], mTrafoType = PERIODIC \<rparr>
       = Inr \<lparr> mData = [0, 0, 0, 0, 0], mExtents = [5], mTrafoType = FFT_INDEX \<rparr>
   \<and> safe_product [5] = Inr 5
   \<and> (DynamicGrid_new unlimited [5] FFT_INDEX :: error + complex_grid)
       = Inr \<lparr> mData = [0, 0, 0, 0, 0], mExtents = [5], mTrafoType = FFT_INDEX \<rparr>
   \<and> (DynamicGrid_new (unlimited(5 \<mapsto> bad_alloc)) [5] FFT_INDEX :: error + complex_grid)
       = Inl runtime_error
   \<and> odd (unat (getExtents \<lparr> mData = [0, 0, 0, 0, 0 :: complex], mExtents = [5], mTrafoType = PERIODIC \<rparr> ! 0))
   \<and> fft_indexing \<lparr> mData = [0, 0, 0, 0, 0 :: complex], mExtents = [5], mTrafoType = PERIODIC \<rparr>
       = Inl logic_error"
proof -
  let ?g = "\<lparr> mData = [0, 0, 0, 0, 0 :: complex], mExtents = [5], mTrafoType = PERIODIC \<rparr>"
  have d: "getDimension ?g = 1" by (simp add: getDimension_def)
  have sp: "safe_product [5] = Inr 5" by code_simp
  have o: "odd (unat (getExtents ?g ! 0))" by (simp add: getExtents_def)
  have r: "replicate (unat (5 :: size_t)) (0 :: complex) = [0, 0, 0, 0, 0]" by code_simp
  have u: "unlimited (unat (5 :: size_t)) = None" by (simp add: unlimited_def)
  have f: "(unlimited(5 \<mapsto> bad_alloc)) (unat (5 :: size_t)) = Some bad_alloc" by simp
  show ?thesis
    using d sp o r u f fft_mode_ignores_parity [of ?g "[5]" 5 unlimited 0, where ?'v = complex]
      fft_mode_ignores_parity [of ?g "[5]" 5 "unlimited(5 \<mapsto> bad_alloc)" 0, where ?'v = complex]
    by simp
qed

section \<open>Properties of the binary grid dump\<close>

lemma length_le_bytes [simp]: "length (le_bytes n v) = n"
  by (induction n arbitrary: v) auto

lemma le_value_le_bytes: "v < 256 ^ n \<Longrightarrow> le_value (le_bytes n v) = v"
proof (induction n arbitrary: v)
  case 0 then show ?case by simp
next
  case (Suc n)
  have "v div 256 < 256 ^ n" using Suc.prems by (simp add: less_mult_imp_div_less mult.commute)
  then have "le_value (le_bytes n (v div 256)) = v div 256" by (rule Suc.IH)
  moreover have "unat (word_of_nat (v mod 256) :: byte) = v mod 256"
    by (simp add: unat_of_nat take_bit_nat_eq_self)
  ultimately show ?case by simp
qed

lemma word64_roundtrip: "word_of_nat (le_value (le_bytes 8 (unat (w :: 64 word)))) = w"
proof -
  have "unat w < 2 ^ 64" using unsigned_less [of w] by simp
  then have "unat w < 256 ^ 8" by simp
  then show ?thesis by (simp add: le_value_le_bytes)
qed

lemma stream_read_append: "length bs = n \<Longrightarrow> stream_read n (bs @ rest) = Inr (bs, rest)"
  by (simp add: stream_read_def)

lemma readInteger_writeInteger: "readInteger (writeInteger w @ rest) = Inr (w, rest)"
  by (simp add: readInteger_def writeInteger_def stream_read_append word64_roundtrip)

lemma readFloat_writeFloat: "readFloat (writeFloat w @ rest) = Inr (w, rest)"
  by (simp add: readFloat_def writeFloat_def stream_read_append word64_roundtrip)

lemma read_items_concat:
  assumes "\<And>x rest. rd (wr x @ rest) = Inr (x, rest)"
  shows "read_items rd (length xs) (concat (map wr xs) @ rest) = Inr (xs, rest)"
  by (induction xs) (simp_all add: assms)

lemma unat_of_nat64: "n < 2 ^ 64 \<Longrightarrow> unat (word_of_nat n :: 64 word) = n"
  by (simp add: unat_of_nat take_bit_nat_eq_self)

lemma unsigned_loop_read_concat:
  assumes "\<And>x rest. rd (wr x @ rest) = Inr (x, rest)" "length xs < 2 ^ 32"
  shows "unsigned_loop_read rd (word_of_nat (length xs)) (concat (map wr xs) @ rest) = Inr (xs, rest)"
proof -
  have u: "unat (word_of_nat (length xs) :: 64 word) = length xs"
    using assms(2) by (simp add: unat_of_nat64)
  then have "(word_of_nat (length xs) :: 64 word) < 4294967296"
    using assms(2) by (simp add: word_less_nat_alt)
  then show ?thesis using u read_items_concat [OF assms(1)] by (simp add: unsigned_loop_read_def)
qed

lemma getline0_append: "0 \<notin> set nm \<Longrightarrow> getline0 (nm @ 0 # rest) = Inr (nm, rest)"
proof -
  assume a: "0 \<notin> set nm"
  have "takeWhile (\<lambda>b. b \<noteq> 0) (nm @ 0 # rest) = nm" using a by (induction nm) auto
  moreover have "dropWhile (\<lambda>b. b \<noteq> 0) (nm @ 0 # rest) = 0 # rest" using a by (induction nm) auto
  ultimately show ?thesis by (simp add: getline0_def)
qed

lemma chunks_concat:
  assumes "\<And>x. length (f x) = k"
  shows "chunks k (length xs) (concat (map f xs) @ rest) = map f xs"
  by (induction xs) (simp_all add: assms)

lemma length_concat_const:
  assumes "\<And>x. length (f x) = k"
  shows "length (concat (map f xs)) = k * length xs"
  by (induction xs) (simp_all add: assms)

lemma GridStorage_load_dump:
  assumes "cell_type_ok ct" "length cells < 2 ^ 64" "stride ct * length cells < 2 ^ 64"
  shows "GridStorage_load ct (length cells) (GridStorage_dump ct cells @ rest) = Inr (cells, rest)"
proof -
  have len: "\<And>x. length (cell_bytes ct x) = stride ct" and inv: "\<And>x. cell_value ct (cell_bytes ct x) = x"
    and nul: "0 \<notin> set (type_name ct)"
    using assms(1) by (auto simp: cell_type_ok_def)
  have "unat (word_of_nat (stride ct * length cells) :: 64 word) = stride ct * length cells"
    using assms(3) by (rule unat_of_nat64)
  then have "unat (word_of_nat (stride ct) * word_of_nat (length cells) :: 64 word) = stride ct * length cells"
    by simp
  moreover have "length (concat (map (cell_bytes ct) cells)) = stride ct * length cells"
    by (rule length_concat_const) (rule len)
  moreover have "chunks (stride ct) (length cells) (concat (map (cell_bytes ct) cells)) = map (cell_bytes ct) cells"
    using chunks_concat [of "cell_bytes ct" "stride ct" cells "[]"] len by simp
  moreover have "map (cell_value ct) (map (cell_bytes ct) cells) = cells"
    by (simp add: inv comp_def)
  ultimately show ?thesis
    using nul
    by (simp add: GridStorage_load_def GridStorage_dump_def getline0_append readInteger_writeInteger
        stream_read_append)
qed

lemma load_dump:
  assumes "cell_type_ok ct" "grid_ok g" "stride ct * length (mData g) < 2 ^ 64"
  shows "load alloc ct (dump ct g @ rest) =
     (case alloc (length (mData g)) of
        None \<Rightarrow> Inr (g\<lparr> mTrafoType := IDENTITY \<rparr>, rest)
      | Some e \<Rightarrow> Inl (if e = bad_alloc then runtime_error else e))"
proof -
  have dim: "1 \<le> length (mExtents g)" "length (mExtents g) \<le> 6"
    and sp: "safe_product (mExtents g) = Inr (word_of_nat (length (mData g)))"
    and n64: "length (mData g) < 2 ^ 64"
    using assms(2) by (auto simp: grid_ok_def getDimension_def)
  have "length (mExtents g) < 2 ^ 32" using dim(2) by simp
  then have info: "load_info (dump ct g @ rest) = Inr (mExtents g, GridStorage_dump ct (mData g) @ rest)"
    using unsigned_loop_read_concat [of readInteger writeInteger "mExtents g"]
    by (simp add: load_info_def dump_def stream_read_def readInteger_writeInteger getDimension_def)
  have new: "(DynamicGrid_new alloc (mExtents g) IDENTITY :: error + 'a DynamicGrid) =
      (case alloc (length (mData g)) of
         None \<Rightarrow> Inr \<lparr> mData = replicate (length (mData g)) 0, mExtents = mExtents g,
                        mTrafoType = IDENTITY \<rparr>
       | Some e \<Rightarrow> Inl (if e = bad_alloc then runtime_error else e))"
    using DynamicGrid_new_ok [OF dim sp, of alloc IDENTITY] n64
    by (cases "alloc (length (mData g))") (simp_all add: unat_of_nat64)
  show ?thesis
    using GridStorage_load_dump [OF assms(1) n64 assms(3)]
    by (simp add: load_def info new split: option.splits)
qed

lemma double_cells_ok: "0 \<notin> set nm \<Longrightarrow> cell_type_ok (double_cells nm)"
  by (simp add: cell_type_ok_def double_cells_def word64_roundtrip)

text \<open>
  Claim C9. \<open>load\<close> always constructs the returned grid with \<open>IDENTITY\<close> access mode,
  whatever mode the dumped grid had. The dump has no access-mode field (it is the same
  for every mode), so for every grid \<open>g\<close>, \<open>load (dump g)\<close> reproduces the extents and
  the cells, and its access mode is \<open>IDENTITY\<close>: this is what \<open>load\<close> returns whenever
  the storage of the new grid is created, and otherwise \<open>load\<close> throws the exception of
  the constructor. Every grid that \<open>load\<close> returns, from any input, has access mode
  \<open>IDENTITY\<close>. The hypotheses say that \<open>g\<close> is a grid object (\<open>grid_ok\<close>), that the
  cell type is written as its bytes (\<open>cell_type_ok\<close>) and that the buffer's byte count
  is a \<^verbatim>\<open>std::size_t\<close>.
\<close>

theorem load_always_identity:
  assumes "cell_type_ok ct" "grid_ok g" "stride ct * length (mData g) < 2 ^ 64"
  shows "load alloc ct (dump ct g @ rest) =
           (case alloc (length (mData g)) of
              None \<Rightarrow> Inr (g\<lparr> mTrafoType := IDENTITY \<rparr>, rest)
            | Some e \<Rightarrow> Inl (if e = bad_alloc then runtime_error else e))
       \<and> dump ct (g\<lparr> mTrafoType := m \<rparr>) = dump ct g
       \<and> (\<forall>g' r. load alloc ct inp = Inr (g', r) \<longrightarrow> getAccessMode g' = IDENTITY)"
proof (intro conjI allI impI)
  show "load alloc ct (dump ct g @ rest) =
           (case alloc (length (mData g)) of
              None \<Rightarrow> Inr (g\<lparr> mTrafoType := IDENTITY \<rparr>, rest)
            | Some e \<Rightarrow> Inl (if e = bad_alloc then runtime_error else e))"
    using assms by (rule load_dump)
  show "dump ct (g\<lparr> mTrafoType := m \<rparr>) = dump ct g"
    by (simp add: dump_def getDimension_def)
  fix g' r assume l: "load alloc ct inp = Inr (g', r)"
  then obtain ext r1 where i: "load_info inp = Inr (ext, r1)"
    by (cases "load_info inp") (auto simp: load_def)
  then obtain g0 :: "'a DynamicGrid" where n: "DynamicGrid_new alloc ext IDENTITY = Inr g0"
    using l by (cases "DynamicGrid_new alloc ext IDENTITY :: error + 'a DynamicGrid") (auto simp: load_def)
  then have "mTrafoType g0 = IDENTITY"
    by (auto simp: DynamicGrid_new_def GridStorage_create_def catch_bad_alloc_def
        setAccessMode_def and_then_def split: sum.splits option.splits)
  then show "getAccessMode g' = IDENTITY"
    using l i n by (auto simp: load_def getAccessMode_def and_then_def split: sum.splits)
qed

theorem load_always_identity_witness:
  "cell_type_ok (double_cells [100])
   \<and> grid_ok \<lparr> mData = [1, 2, 3, 4 :: double], mExtents = [2, 2], mTrafoType = FFT_INDEX \<rparr>
   \<and> load unlimited (double_cells [100])
        (dump (double_cells [100])
           \<lparr> mData = [1, 2, 3, 4], mExtents = [2, 2], mTrafoType = FFT_INDEX \<rparr> @ [7])
       = Inr (\<lparr> mData = [1, 2, 3, 4], mExtents = [2, 2], mTrafoType = IDENTITY \<rparr>, [7])
   \<and> load (unlimited(4 \<mapsto> bad_alloc)) (double_cells [100])
        (dump (double_cells [100])
           \<lparr> mData = [1, 2, 3, 4], mExtents = [2, 2], mTrafoType = FFT_INDEX \<rparr> @ [7])
       = Inl runtime_error"
proof -
  let ?g = "\<lparr> mData = [1, 2, 3, 4 :: double], mExtents = [2, 2], mTrafoType = FFT_INDEX \<rparr>"
  have c: "cell_type_ok (double_cells [100])" by (simp add: double_cells_ok)
  have sp: "safe_product (mExtents ?g) = Inr (word_of_nat (length (mData ?g)))" by code_simp
  have g: "grid_ok ?g" using sp by (simp add: grid_ok_def getDimension_def)
  have s: "stride (double_cells [100]) * length (mData ?g) < 2 ^ 64"
    by (simp add: double_cells_def)
  show ?thesis
    using c g load_always_identity [OF c g s, of unlimited "[7]"]
      load_always_identity [OF c g s, of "unlimited(4 \<mapsto> bad_alloc)" "[7]"]
    by (simp add: unlimited_def)
qed

section \<open>Properties of Potential\<close>

lemma map_assign_entries:
  assumes "(k', g') \<in> set (map_assign k v m)"
  shows "(k' = k \<or> k' \<in> fst ` set m) \<and> (g' = v \<or> g' \<in> snd ` set m)"
  using assms
  by (induction m) (auto split: if_splits simp: rev_image_eqI)

lemma setDerivative_dims_ok:
  assumes "dims_ok pot" "setDerivative deriv data nm pot = Inr pot'"
  shows "dims_ok pot' \<and> potDimension pot' = potDimension pot \<and> potExtents pot' = potExtents pot"
proof -
  have l: "length deriv = potDimension pot" and d: "getDimension data = potDimension pot"
    and eq: "pot' = pot\<lparr> potData := map_assign (IndexType nm deriv) data (potData pot) \<rparr>"
    using assms(2) by (auto simp: setDerivative_def split: if_splits)
  have "dims_ok pot'"
    unfolding dims_ok_def eq
  proof (clarsimp)
    fix k g assume "(k, g) \<in> set (map_assign (IndexType nm deriv) data (potData pot))"
    then have "(k = IndexType nm deriv \<or> k \<in> fst ` set (potData pot))
        \<and> (g = data \<or> g \<in> snd ` set (potData pot))"
      by (rule map_assign_entries)
    then show "getDimension g = potDimension pot \<and> length (derivations k) = potDimension pot"
      using assms(1) l d by (fastforce simp: dims_ok_def)
  qed
  then show ?thesis by (simp add: eq)
qed

lemma run_calls_dims_ok:
  assumes "dims_ok pot" "run_calls cs pot = Inr pot'"
  shows "dims_ok pot' \<and> potDimension pot' = potDimension pot \<and> potExtents pot' = potExtents pot"
  using assms
proof (induction cs arbitrary: pot)
  case Nil
  then show ?case by simp
next
  case (Cons c cs)
  show ?case
  proof (cases c)
    case (SetPotential data nm)
    then obtain p1 where p1: "setDerivative (replicate (potDimension pot) 0) data nm pot = Inr p1"
      and r: "run_calls cs p1 = Inr pot'"
      using Cons.prems(2) by (cases "setPotential data nm pot") (auto simp: setPotential_def)
    from setDerivative_dims_ok [OF Cons.prems(1) p1] Cons.IH [OF _ r]
    show ?thesis by simp
  next
    case (SetDerivative deriv data nm)
    then obtain p1 where p1: "setDerivative deriv data nm pot = Inr p1"
      and r: "run_calls cs p1 = Inr pot'"
      using Cons.prems(2) by (cases "setDerivative deriv data nm pot") auto
    from setDerivative_dims_ok [OF Cons.prems(1) p1] Cons.IH [OF _ r]
    show ?thesis by simp
  qed
qed

text \<open>
  Claim C7, as stated: \<open>setDerivative\<close> rejects a grid whose extents differ from the
  potential's and a derivative index with a negative entry. It does not: on a
  one-dimensional potential of extent 4 it stores a grid of extent 2 under the
  derivative index \<open>(-1)\<close>.
\<close>

theorem setDerivative_counterexample:
  "setDerivative [- 1] \<lparr> mData = [0, 0], mExtents = [2], mTrafoType = IDENTITY \<rparr>
          (bytes_of ''potential'') (Potential_new 0 [4] [0] 0)
       = Inr \<lparr> potDimension = 1, mSeed = 0, potExtents = [4], mSupport = [0], mStrength = 0,
            mCorrelationLength = 0xBFF0000000000000, mPotgenVersion = 3,
            potData = [(IndexType (bytes_of ''potential'') [- 1],
                        \<lparr> mData = [0, 0], mExtents = [2], mTrafoType = IDENTITY \<rparr>)] \<rparr>
   \<and> sint (- 1 :: index_type) < 0 \<and> [2 :: size_t] \<noteq> [4]"
  by (simp add: setDerivative_def Potential_new_def getDimension_def)

text \<open>
  Claim C7, amended. After any sequence of successful \<open>setPotential\<close> and
  \<open>setDerivative\<close> calls on a new potential of dimension \<open>D\<close>, every stored grid has
  \<open>D\<close> axes and every stored derivative index has length \<open>D\<close>, and the potential's
  dimension and extents are unchanged. \<open>setDerivative\<close> throws exactly when the index
  does not have \<open>D\<close> entries or the grid does not have \<open>D\<close> axes; it checks neither
  the extents of the grid nor the sign of the index entries.
\<close>

theorem stored_grids_have_dimension:
  "(run_calls calls (Potential_new seed0 extents support strength) = Inr pot \<longrightarrow>
      potDimension pot = length extents \<and> potExtents pot = extents \<and>
      (\<forall>(k, g) \<in> set (potData pot).
         getDimension g = potDimension pot \<and> length (derivations k) = potDimension pot))
   \<and> ((\<exists>e. setDerivative deriv data nm pot0 = Inl e) \<longleftrightarrow>
        (length deriv \<noteq> potDimension pot0 \<or> getDimension data \<noteq> potDimension pot0))"
proof -
  have a: "potDimension pot = length extents \<and> potExtents pot = extents \<and>
      (\<forall>(k, g) \<in> set (potData pot).
         getDimension g = potDimension pot \<and> length (derivations k) = potDimension pot)"
    if r: "run_calls calls (Potential_new seed0 extents support strength) = Inr pot"
  proof -
    have "dims_ok (Potential_new seed0 extents support strength)"
      by (simp add: dims_ok_def Potential_new_def)
    from run_calls_dims_ok [OF this r] show ?thesis
      by (auto simp: dims_ok_def Potential_new_def)
  qed
  have b: "(\<exists>e. setDerivative deriv data nm pot0 = Inl e) \<longleftrightarrow>
        (length deriv \<noteq> potDimension pot0 \<or> getDimension data \<noteq> potDimension pot0)"
    by (auto simp: setDerivative_def)
  show ?thesis using a b by blast
qed

theorem stored_grids_have_dimension_witness:
  "run_calls [SetPotential \<lparr> mData = [1, 2], mExtents = [2], mTrafoType = IDENTITY \<rparr> [112],
              SetDerivative [1] \<lparr> mData = [3, 4], mExtents = [2], mTrafoType = IDENTITY \<rparr> [112]]
        (Potential_new 0 [2] [0] 0)
     = Inr \<lparr> potDimension = 1, mSeed = 0, potExtents = [2], mSupport = [0], mStrength = 0,
            mCorrelationLength = 0xBFF0000000000000, mPotgenVersion = 3,
            potData = [(IndexType [112] [0], \<lparr> mData = [1, 2], mExtents = [2], mTrafoType = IDENTITY \<rparr>),
                       (IndexType [112] [1], \<lparr> mData = [3, 4], mExtents = [2], mTrafoType = IDENTITY \<rparr>)] \<rparr>
   \<and> getDimension \<lparr> mData = [1, 2 :: double], mExtents = [2], mTrafoType = IDENTITY \<rparr> = 1
   \<and> getDimension \<lparr> mData = [3, 4 :: double], mExtents = [2], mTrafoType = IDENTITY \<rparr> = 1"
proof -
  let ?calls = "[SetPotential \<lparr> mData = [1, 2], mExtents = [2], mTrafoType = IDENTITY \<rparr> [112],
              SetDerivative [1] \<lparr> mData = [3, 4], mExtents = [2], mTrafoType = IDENTITY \<rparr> [112]]"
  let ?pot = "\<lparr> potDimension = 1, mSeed = 0, potExtents = [2], mSupport = [0], mStrength = 0,
            mCorrelationLength = 0xBFF0000000000000, mPotgenVersion = 3,
            potData = [(IndexType [112] [0], \<lparr> mData = [1, 2], mExtents = [2], mTrafoType = IDENTITY \<rparr>),
                       (IndexType [112] [1], \<lparr> mData = [3, 4], mExtents = [2], mTrafoType = IDENTITY \<rparr>)] \<rparr>"
  have r: "run_calls ?calls (Potential_new 0 [2] [0] 0) = Inr ?pot"
    by (simp add: setPotential_def setDerivative_def Potential_new_def getDimension_def key_less_def
        word_sless_alt)
  show ?thesis
    using r stored_grids_have_dimension [of ?calls 0 "[2]" "[0]" 0 ?pot]
    by simp
qed

subsection \<open>Writing a potential and reading it back\<close>

lemma narrow_widen: "ucast (scast (x :: 32 word) :: 64 word) = x"
  by (simp add: bit_eq_iff bit_simps)

lemma map_nth_upt: "map (\<lambda>i. f (xs ! i)) [0..<length xs] = map f xs"
  by (rule nth_equalityI) simp_all

lemma digit_byte: "d < 10 \<Longrightarrow> unat (word_of_nat (48 + d) :: byte) = 48 + d"
  by (simp only: unat_of_nat) simp

lemma isdigit_byte: "d < 10 \<Longrightarrow> isdigit (word_of_nat (48 + d))"
  using digit_byte [of d] by (simp add: isdigit_def word_le_nat_alt)

lemma show_nat_digits: "b \<in> set (show_nat n) \<Longrightarrow> isdigit b"
proof (induction n arbitrary: b rule: show_nat.induct)
  case (1 n)
  show ?case
  proof (cases "n < 10")
    case True
    then show ?thesis using "1.prems" isdigit_byte [of n] by (simp add: show_nat.simps [of n])
  next
    case False
    then have "show_nat n = show_nat (n div 10) @ [word_of_nat (48 + n mod 10)]"
      by (subst show_nat.simps) simp
    then have "b \<in> set (show_nat (n div 10)) \<or> b = word_of_nat (48 + n mod 10)"
      using "1.prems" by auto
    then show ?thesis using "1.IH" [OF False] isdigit_byte [of "n mod 10"] by auto
  qed
qed

lemma show_nat_nonempty: "show_nat n \<noteq> []"
  by (simp add: show_nat.simps [of n])

lemma digits_value_show_nat: "digits_value (show_nat n) = n"
proof (induction n rule: show_nat.induct)
  case (1 n)
  show ?case
  proof (cases "n < 10")
    case True
    then show ?thesis using digit_byte [of n]
      by (simp add: show_nat.simps [of n] digits_value_def)
  next
    case False
    then have sn: "show_nat n = show_nat (n div 10) @ [word_of_nat (48 + n mod 10)]"
      by (subst show_nat.simps) simp
    have "digits_value (show_nat (n div 10)) = n div 10" using "1.IH" False by simp
    then show ?thesis using digit_byte [of "n mod 10"]
      by (simp add: sn digits_value_def)
  qed
qed

lemma isdigit_not_space: "isdigit b \<Longrightarrow> \<not> isspace b"
  by (auto simp: isdigit_def isspace_def word_le_nat_alt)

lemma read_unsigned_show_nat:
  assumes "n < 2 ^ 64"
  shows "read_unsigned (32 # show_nat n @ 10 # rest) = Inr (word_of_nat n, 10 # rest)"
proof -
  obtain d ds where sn: "show_nat n = d # ds"
    using show_nat_nonempty [of n] by (cases "show_nat n") auto
  have dd: "isdigit d" using show_nat_digits [of d n] sn by simp
  have s: "dropWhile isspace (32 # show_nat n @ 10 # rest) = show_nat n @ 10 # rest"
  proof -
    have "isspace 32" by (simp add: isspace_def)
    then show ?thesis using isdigit_not_space [OF dd] by (simp add: sn)
  qed
  have n10: "\<not> isdigit 10" by (simp add: isdigit_def)
  have t: "takeWhile isdigit (show_nat n @ 10 # rest) = show_nat n"
    using show_nat_digits [of _ n] n10 by (simp add: takeWhile_append2)
  have r: "dropWhile isdigit (show_nat n @ 10 # rest) = 10 # rest"
    using show_nat_digits [of _ n] n10 by (simp add: dropWhile_append2)
  have "n \<le> 18446744073709551615" using assms by simp
  then show ?thesis
    by (simp only: read_unsigned_def Let_def s t r digits_value_show_nat show_nat_nonempty if_True if_False)
qed

lemma overwrite_last2_Cons:
  "2 \<le> length xs \<Longrightarrow> overwrite_last2 (x # xs) new = x # overwrite_last2 xs new"
  by (simp add: overwrite_last2_def Suc_diff_le numeral_2_eq_2 take_Cons')

lemma length_overwrite_last2: "length (overwrite_last2 xs new) = length xs - 2 + length new"
  by (simp add: overwrite_last2_def)

lemma human_info_head: "\<exists>t. human_info fmt pot = 10 # t"
  by (simp add: human_info_def Let_def overwrite_last2_Cons length_overwrite_last2 bytes_of_def)

lemma stream_get_name:
  assumes "length nm < 2 ^ 32"
  shows "unsigned_loop_read stream_get (word_of_nat (length nm)) (nm @ rest) = Inr (nm, rest)"
proof -
  have "concat (map (\<lambda>b. [b]) nm) = nm" by (induction nm) simp_all
  then show ?thesis
    using unsigned_loop_read_concat [of stream_get "\<lambda>b. [b]" nm rest] assms
    by (simp add: stream_get_def)
qed

lemma lexicographical_compare_asym:
  "lexicographical_compare xs ys \<Longrightarrow> \<not> lexicographical_compare ys xs"
  by (induction xs ys rule: lexicographical_compare.induct)
     (auto simp: word_sless_alt split: if_splits)

lemma key_less_asym: "key_less a b \<Longrightarrow> \<not> key_less b a"
  using lexicographical_compare_asym [of "derivations a" "derivations b"]
  by (auto simp: key_less_def split: if_splits)

lemma map_assign_append:
  assumes "\<forall>k' \<in> set (map fst m). key_less k' k"
  shows "map_assign k v m = m @ [(k, v)]"
  using assms by (induction m) (auto dest: key_less_asym)

lemma read_entry_write_entry:
  assumes tn: "0 \<notin> set tn" and D: "D < 2 ^ 32" and ok: "entry_ok D (k, g)"
  shows "read_entry alloc tn (word_of_nat D) (write_entry tn D (k, g) @ rest) =
           (case alloc (length (mData g)) of
              None \<Rightarrow> Inr ((name k, derivations k, g\<lparr> mTrafoType := IDENTITY \<rparr>), rest)
            | Some e \<Rightarrow> Inl (if e = bad_alloc then runtime_error else e))"
proof -
  have nl: "length (name k) < 2 ^ 32" and dl: "length (derivations k) = D"
    and gok: "grid_ok g" and sz: "stride (double_cells tn) * length (mData g) < 2 ^ 64"
    using ok by (simp_all add: entry_ok_def double_cells_def)
  let ?idx = "map scast (derivations k) :: size_t list"
  have w: "concat (map (\<lambda>i. writeInteger (scast (derivations k ! i))) [0..<D]) =
             concat (map writeInteger ?idx)"
    using map_nth_upt [of "\<lambda>x. writeInteger (scast x)" "derivations k"] dl
    by (simp add: comp_def)
  have li: "length ?idx < 2 ^ 32" "word_of_nat D = (word_of_nat (length ?idx) :: size_t)"
    using D dl by simp_all
  have r3: "unsigned_loop_read readInteger (word_of_nat D)
              (concat (map writeInteger ?idx) @ dump (double_cells tn) g @ rest) =
            Inr (?idx, dump (double_cells tn) g @ rest)"
    unfolding li(2)
    by (rule unsigned_loop_read_concat [OF readInteger_writeInteger li(1)])
  have bk: "map ucast ?idx = derivations k"
    by (simp add: comp_def narrow_widen)
  have r4: "load alloc (double_cells tn) (dump (double_cells tn) g @ rest) =
              (case alloc (length (mData g)) of
                 None \<Rightarrow> Inr (g\<lparr> mTrafoType := IDENTITY \<rparr>, rest)
               | Some e \<Rightarrow> Inl (if e = bad_alloc then runtime_error else e))"
    by (rule load_dump [OF double_cells_ok [OF tn] gok sz])
  have "read_entry alloc tn (word_of_nat D) (write_entry tn D (k, g) @ rest) =
          and_then (load alloc (double_cells tn) (dump (double_cells tn) g @ rest))
            (\<lambda>(g', r4). Inr ((name k, derivations k, g'), r4))"
    unfolding read_entry_def write_entry_def
    by (simp only: prod.case append_assoc readInteger_writeInteger and_then_Inr
          stream_get_name [OF nl] w r3 bk)
  then show ?thesis by (simp add: r4 split: option.splits)
qed

lemma setDerivative_append:
  assumes "length (derivations k) = potDimension acc" "getDimension g = potDimension acc"
    "\<forall>k' \<in> set (map fst (potData acc)). key_less k' k"
  shows "setDerivative (derivations k) g (name k) acc =
           Inr (acc\<lparr> potData := potData acc @ [(k, g)] \<rparr>)"
  using assms map_assign_append [of "potData acc" k g]
  by (simp add: setDerivative_def)

lemma read_entries_written:
  assumes "0 \<notin> set tn" "D < 2 ^ 32"
  shows "potDimension acc = D \<Longrightarrow> list_all (entry_ok D) todo \<Longrightarrow>
         sorted_wrt key_less (map fst (potData acc) @ map fst todo) \<Longrightarrow>
         read_entries alloc tn (word_of_nat D) (length todo) acc
           (concat (map (write_entry tn D) todo) @ rest) =
         (case first_failure alloc todo of
            None \<Rightarrow> Inr (acc\<lparr> potData := potData acc @ map as_loaded todo \<rparr>)
          | Some e \<Rightarrow> Inl (if e = bad_alloc then runtime_error else e))"
proof (induction todo arbitrary: acc)
  case Nil
  then show ?case by simp
next
  case (Cons e todo)
  obtain k g where e: "e = (k, g)" by (cases e)
  let ?g = "g\<lparr> mTrafoType := IDENTITY \<rparr>"
  let ?acc = "acc\<lparr> potData := potData acc @ [(k, ?g)] \<rparr>"
  have ok: "entry_ok D (k, g)" and oks: "list_all (entry_ok D) todo"
    using Cons.prems(2) e by simp_all
  have rd: "read_entry alloc tn (word_of_nat D)
              (write_entry tn D (k, g) @ concat (map (write_entry tn D) todo) @ rest) =
            (case alloc (length (mData g)) of
               None \<Rightarrow> Inr ((name k, derivations k, ?g), concat (map (write_entry tn D) todo) @ rest)
             | Some x \<Rightarrow> Inl (if x = bad_alloc then runtime_error else x))"
    by (rule read_entry_write_entry [OF assms ok])
  show ?case
  proof (cases "alloc (length (mData g))")
    case (Some x)
    then show ?thesis by (simp add: e rd)
  next
    case None
    have below: "\<forall>k' \<in> set (map fst (potData acc)). key_less k' k"
      using Cons.prems(3) e by (auto simp: sorted_wrt_append)
    have sd: "setDerivative (derivations k) ?g (name k) acc = Inr ?acc"
      using ok Cons.prems(1) below
      by (intro setDerivative_append) (simp_all add: entry_ok_def getDimension_def)
    have srt: "sorted_wrt key_less (map fst (potData ?acc) @ map fst todo)"
      using Cons.prems(3) e by simp
    have "read_entries alloc tn (word_of_nat D) (length todo) ?acc
             (concat (map (write_entry tn D) todo) @ rest) =
           (case first_failure alloc todo of
              None \<Rightarrow> Inr (?acc\<lparr> potData := potData ?acc @ map as_loaded todo \<rparr>)
            | Some e \<Rightarrow> Inl (if e = bad_alloc then runtime_error else e))"
      using Cons.IH [of ?acc] Cons.prems(1) oks srt by simp
    then show ?thesis
      by (simp add: e rd sd None as_loaded_def split: option.splits)
  qed
qed

lemma readFromFile_writeToFile:
  assumes ok: "potential_ok pot" and tn: "0 \<notin> set tn"
    and hl: "length (human_info fmt pot) < 18446744073709551616"
  shows "\<exists>file. writeToFile fmt tn pot = Inr file \<and>
           readFromFile alloc tn seed0 file =
             (case first_failure alloc (potData pot) of
                None \<Rightarrow> Inr (pot\<lparr> potData := map as_loaded (potData pot) \<rparr>)
              | Some e \<Rightarrow> Inl (if e = bad_alloc then runtime_error else e))"
proof -
  let ?D = "potDimension pot"
  let ?h = "human_info fmt pot"
  let ?entries = "concat (map (write_entry tn ?D) (potData pot))"
  let ?body = "writeInteger (word_of_nat ?D) @
        concat (map writeFloat (mSupport pot)) @
        concat (map writeInteger (potExtents pot)) @
        writeInteger (mSeed pot) @
        writeInteger (mPotgenVersion pot) @
        writeInteger (word_of_nat (length (potData pot))) @
        writeFloat (mCorrelationLength pot) @
        writeFloat (mStrength pot) @ ?entries"
  let ?file = "header @ 32 # show_nat (length ?h) @ ?h @ ?body"
  have D: "?D < 2 ^ 32" "?D < 4294967296" and le: "length (potExtents pot) = ?D"
    and ls: "length (mSupport pot) = ?D" and lg: "length (potData pot) < 4294967296"
    and srt: "sorted_wrt key_less (map fst (potData pot))"
    and oks: "list_all (entry_ok ?D) (potData pot)"
    using ok by (simp_all add: potential_ok_def)
  have sup: "concat (map (\<lambda>i. writeFloat (mSupport pot ! i)) [0..<?D]) =
               concat (map writeFloat (mSupport pot))"
    using map_nth_upt [of writeFloat "mSupport pot"] ls by simp
  have ext: "concat (map (\<lambda>i. writeInteger (potExtents pot ! i)) [0..<?D]) =
               concat (map writeInteger (potExtents pot))"
    using map_nth_upt [of writeInteger "potExtents pot"] le by simp
  have wr: "writeToFile fmt tn pot = Inr ?file"
    using D(2) by (simp add: writeToFile_def Let_def sup ext)
  obtain t where t: "?h = 10 # t" using human_info_head [of fmt pot] by blast
  have h5: "stream_read 5 ?file = Inr (header, 32 # show_nat (length ?h) @ ?h @ ?body)"
    by (rule stream_read_append) (simp add: header_def bytes_of_def)
  have ru: "read_unsigned (32 # show_nat (length ?h) @ ?h @ ?body) =
              Inr (word_of_nat (length ?h), ?h @ ?body)"
    using read_unsigned_show_nat [of "length ?h" "t @ ?body"] hl t by simp
  have sk: "drop (unat (word_of_nat (length ?h) :: size_t)) (?h @ ?body) = ?body"
    using hl by (simp add: unat_of_nat64)
  have rs: "\<And>r. unsigned_loop_read readFloat (word_of_nat ?D)
              (concat (map writeFloat (mSupport pot)) @ r) = Inr (mSupport pot, r)"
    using unsigned_loop_read_concat [OF readFloat_writeFloat, of "mSupport pot"] ls D(1) by simp
  have re: "\<And>r. unsigned_loop_read readInteger (word_of_nat ?D)
              (concat (map writeInteger (potExtents pot)) @ r) = Inr (potExtents pot, r)"
    using unsigned_loop_read_concat [OF readInteger_writeInteger, of "potExtents pot"] le D(1) by simp
  have gc: "(word_of_nat (length (potData pot)) :: size_t) < 4294967296"
       "unat (word_of_nat (length (potData pot)) :: size_t) = length (potData pot)"
    using lg by (simp_all add: word_less_nat_alt unat_of_nat64)
  let ?acc = "setCreationInfo (mSeed pot) (mPotgenVersion pot) (mCorrelationLength pot)
                (Potential_new seed0 (potExtents pot) (mSupport pot) (mStrength pot))"
  have acc: "?acc = pot\<lparr> potData := [] \<rparr>"
    using le by (simp add: setCreationInfo_def Potential_new_def)
  have ents: "read_entries alloc tn (word_of_nat ?D) (length (potData pot)) ?acc ?entries =
                (case first_failure alloc (potData pot) of
                   None \<Rightarrow> Inr (pot\<lparr> potData := map as_loaded (potData pot) \<rparr>)
                 | Some e \<Rightarrow> Inl (if e = bad_alloc then runtime_error else e))"
    using read_entries_written [OF tn D(1), of "pot\<lparr> potData := [] \<rparr>" "potData pot" alloc "[]"] oks srt
    by (simp add: acc split: option.splits)
  have "readFromFile alloc tn seed0 ?file =
          (case first_failure alloc (potData pot) of
             None \<Rightarrow> Inr (pot\<lparr> potData := map as_loaded (potData pot) \<rparr>)
           | Some e \<Rightarrow> Inl (if e = bad_alloc then runtime_error else e))"
    unfolding readFromFile_def
    by (simp only: h5 ru sk and_then_Inr prod.case if_False simp_thms append_assoc
          readInteger_writeInteger readFloat_writeFloat rs re gc ents not_True_eq_False)
  then show ?thesis using wr by blast
qed

text \<open>
  Claim C1. Writing a potential with \<open>writeToFile\<close> and reading the file back with
  \<open>readFromFile\<close> succeeds and returns the potential itself, with every grid in
  \<open>IDENTITY\<close> access mode: the dimension, the support, the extents, the seed, the
  generator version, the correlation length and the strength are those of the original,
  the map has the same keys (name and derivative index) in the same order, and every
  grid has the same extents and the same cells, bit for bit. This holds for every
  potential of one, two or three axes in a state described by \<open>potential_ok\<close>, for every
  formatting \<open>fmt\<close> of the floating-point numbers of the text block, whose length is a
  \<^verbatim>\<open>uint64_t\<close>, for every type name \<open>tn\<close> without a zero byte, and whatever the
  uninitialised seed \<open>seed0\<close> of the object that \<open>readFromFile\<close> builds. It is the
  result whenever each grid that is read gets its storage; where one does not,
  \<open>readFromFile\<close> throws the exception of the constructor of the first such grid.
\<close>

theorem potential_roundtrip:
  assumes "potential_ok pot" "0 \<notin> set tn"
    "length (human_info fmt pot) < 18446744073709551616"
  shows "and_then (writeToFile fmt tn pot) (readFromFile alloc tn seed0) =
           (case first_failure alloc (potData pot) of
              None \<Rightarrow> Inr (pot\<lparr> potData := map as_loaded (potData pot) \<rparr>)
            | Some e \<Rightarrow> Inl (if e = bad_alloc then runtime_error else e))"
  using readFromFile_writeToFile [OF assms, of alloc seed0] by auto

theorem potential_roundtrip_witness:
  "potential_ok
     \<lparr> potDimension = 2, mSeed = 5, potExtents = [2, 2], mSupport = [1, 2], mStrength = 3,
       mCorrelationLength = 4, mPotgenVersion = 3,
       potData = [(IndexType [112] [0, 0], \<lparr> mData = [1, 2, 3, 4], mExtents = [2, 2], mTrafoType = PERIODIC \<rparr>),
                  (IndexType [112] [0, 1], \<lparr> mData = [5, 6, 7, 8], mExtents = [2, 2], mTrafoType = IDENTITY \<rparr>)] \<rparr>
   \<and> and_then (writeToFile (\<lambda>d. [49]) [100]
        \<lparr> potDimension = 2, mSeed = 5, potExtents = [2, 2], mSupport = [1, 2], mStrength = 3,
          mCorrelationLength = 4, mPotgenVersion = 3,
          potData = [(IndexType [112] [0, 0], \<lparr> mData = [1, 2, 3, 4], mExtents = [2, 2], mTrafoType = PERIODIC \<rparr>),
                     (IndexType [112] [0, 1], \<lparr> mData = [5, 6, 7, 8], mExtents = [2, 2], mTrafoType = IDENTITY \<rparr>)] \<rparr>)
        (readFromFile unlimited [100] 9)
     = Inr \<lparr> potDimension = 2, mSeed = 5, potExtents = [2, 2], mSupport = [1, 2], mStrength = 3,
          mCorrelationLength = 4, mPotgenVersion = 3,
          potData = [(IndexType [112] [0, 0], \<lparr> mData = [1, 2, 3, 4], mExtents = [2, 2], mTrafoType = IDENTITY \<rparr>),
                     (IndexType [112] [0, 1], \<lparr> mData = [5, 6, 7, 8], mExtents = [2, 2], mTrafoType = IDENTITY \<rparr>)] \<rparr>
   \<and> and_then (writeToFile (\<lambda>d. [49]) [100]
        \<lparr> potDimension = 2, mSeed = 5, potExtents = [2, 2], mSupport = [1, 2], mStrength = 3,
          mCorrelationLength = 4, mPotgenVersion = 3,
          potData = [(IndexType [112] [0, 0], \<lparr> mData = [1, 2, 3, 4], mExtents = [2, 2], mTrafoType = PERIODIC \<rparr>),
                     (IndexType [112] [0, 1], \<lparr> mData = [5, 6, 7, 8], mExtents = [2, 2], mTrafoType = IDENTITY \<rparr>)] \<rparr>)
        (readFromFile (unlimited(4 \<mapsto> bad_alloc)) [100] 9)
     = Inl runtime_error"
proof -
  let ?g1 = "\<lparr> mData = [1, 2, 3, 4 :: double], mExtents = [2, 2], mTrafoType = PERIODIC \<rparr>"
  let ?g2 = "\<lparr> mData = [5, 6, 7, 8 :: double], mExtents = [2, 2], mTrafoType = IDENTITY \<rparr>"
  let ?pot = "\<lparr> potDimension = 2, mSeed = 5, potExtents = [2, 2], mSupport = [1, 2], mStrength = 3,
       mCorrelationLength = 4, mPotgenVersion = 3,
       potData = [(IndexType [112] [0, 0], ?g1), (IndexType [112] [0, 1], ?g2)] \<rparr>"
  have sp: "safe_product [2, 2] = Inr (4 :: size_t)" by code_simp
  have g: "grid_ok ?g1" "grid_ok ?g2" using sp by (simp_all add: grid_ok_def getDimension_def)
  have k: "key_less (IndexType [112] [0, 0]) (IndexType [112] [0, 1])"
    by (simp add: key_less_def word_sless_alt)
  have ok: "potential_ok ?pot"
    using g k by (simp add: potential_ok_def entry_ok_def getDimension_def)
  have tn: "0 \<notin> set [100 :: byte]" by simp
  have hl: "length (human_info (\<lambda>d. [49]) ?pot) < 18446744073709551616"
    by (simp add: human_info_def overwrite_last2_def bytes_of_def show_nat.simps)
  show ?thesis
    using ok potential_roundtrip [OF ok tn hl, of unlimited 9]
      potential_roundtrip [OF ok tn hl, of "unlimited(4 \<mapsto> bad_alloc)" 9]
    by (simp add: as_loaded_def unlimited_def)
qed

section \<open>Properties of the tracer\<close>


lemma upt3: "[0..<3] = [0, 1, 2]"
  by (simp add: upt_rec)











text \<open>
  Claim C8, as stated: the radial-2D generator yields the velocity
  \<open>(cos(2\<pi>u), sin(2\<pi>u))\<close>. At \<open>u = 0\<close> the claimed velocity is \<open>(1, 0)\<close>, but the
  generator yields \<open>(0, 1)\<close>.
\<close>

theorem radial_2d_counterexample:
  "snd (RadialWave2D_generate \<lparr> mWorldDimension = 2, mStartingPos = [1 / 2, 1 / 2] \<rparr>
          [0, 0] [0, 0] [0]) = [0, 1]
   \<and> [cos (2 * pi * 0), sin (2 * pi * 0)] = [1, 0 :: real]"
  by (simp add: RadialWave2D_generate_def)

text \<open>
  Claim C8, amended. For every manifold coordinate \<open>u\<close> the radial-2D generator
  produces a starting state whose position equals the fixed origin and whose velocity is
  \<open>(sin(2\<pi>u), cos(2\<pi>u))\<close> in its first two components; further components of the
  velocity vector are left as they were.
\<close>

theorem radial_2d_generate:
  assumes "2 \<le> length ray_velocity"
  shows "fst (RadialWave2D_generate w ray_position ray_velocity (u # rest)) = mStartingPos w
   \<and> snd (RadialWave2D_generate w ray_position ray_velocity (u # rest)) ! 0 = sin (2 * pi * u)
   \<and> snd (RadialWave2D_generate w ray_position ray_velocity (u # rest)) ! 1 = cos (2 * pi * u)
   \<and> length (snd (RadialWave2D_generate w ray_position ray_velocity (u # rest))) = length ray_velocity
   \<and> (\<forall>i. 2 \<le> i \<longrightarrow>
         snd (RadialWave2D_generate w ray_position ray_velocity (u # rest)) ! i = ray_velocity ! i)"
proof -
  have l: "0 < length ray_velocity" "1 < length ray_velocity" using assms by linarith+
  have a: "u * 2 * pi = 2 * pi * u" by simp
  have s: "snd (RadialWave2D_generate w ray_position ray_velocity (u # rest))
       = ray_velocity[0 := sin (2 * pi * u), 1 := cos (2 * pi * u)]"
    by (simp only: RadialWave2D_generate_def Let_def snd_conv nth_Cons_0 a)
  have f: "fst (RadialWave2D_generate w ray_position ray_velocity (u # rest)) = mStartingPos w"
    by (simp only: RadialWave2D_generate_def Let_def fst_conv)
  have n0: "ray_velocity[0 := sin (2 * pi * u), 1 := cos (2 * pi * u)] ! 0 = sin (2 * pi * u)"
    using l by (simp only: nth_list_update_neq [of 1 0] nth_list_update_eq zero_neq_one
        one_neq_zero not_False_eq_True)
  have n1: "ray_velocity[0 := sin (2 * pi * u), 1 := cos (2 * pi * u)] ! 1 = cos (2 * pi * u)"
    using l by (simp only: nth_list_update_eq length_list_update)
  have n2: "\<And>i. 2 \<le> i \<Longrightarrow>
      ray_velocity[0 := sin (2 * pi * u), 1 := cos (2 * pi * u)] ! i = ray_velocity ! i"
    by simp
  show ?thesis unfolding s f using n0 n1 n2 by simp
qed

theorem radial_2d_generate_witness:
  "(2 :: nat) \<le> length [0, 0, 7 :: real]
   \<and> fst (RadialWave2D_generate \<lparr> mWorldDimension = 3, mStartingPos = [1 / 2, 1 / 2, 1 / 2] \<rparr>
            [0, 0, 0] [0, 0, 7] [1 / 4]) = [1 / 2, 1 / 2, 1 / 2]
   \<and> snd (RadialWave2D_generate \<lparr> mWorldDimension = 3, mStartingPos = [1 / 2, 1 / 2, 1 / 2] \<rparr>
            [0, 0, 0] [0, 0, 7] [1 / 4]) ! 0 = 1
   \<and> snd (RadialWave2D_generate \<lparr> mWorldDimension = 3, mStartingPos = [1 / 2, 1 / 2, 1 / 2] \<rparr>
            [0, 0, 0] [0, 0, 7] [1 / 4]) ! 1 = 0
   \<and> snd (RadialWave2D_generate \<lparr> mWorldDimension = 3, mStartingPos = [1 / 2, 1 / 2, 1 / 2] \<rparr>
            [0, 0, 0] [0, 0, 7] [1 / 4]) ! 2 = 7"
proof -
  have l: "(2 :: nat) \<le> length [0, 0, 7 :: real]" by simp
  have "2 * pi * (1 / 4) = pi / 2" by simp
  then have sc: "sin (2 * pi * (1 / 4)) = 1" "cos (2 * pi * (1 / 4)) = 0"
    by (simp_all only: sin_pi_half cos_pi_half)
  show ?thesis
    using l sc radial_2d_generate [OF l, of "\<lparr> mWorldDimension = 3, mStartingPos = [1 / 2, 1 / 2, 1 / 2] \<rparr>"
        "[0, 0, 0]" "1 / 4" "[]"]
    by simp
qed









section \<open>Properties of the phase randomisation\<close>

lemma sign_factor_sets:
  "{u. 0 \<le> u \<and> u < 2 * pi \<and> sign_factor u = 1} = {0..<1 / 2}
   \<and> {u. 0 \<le> u \<and> u < 2 * pi \<and> sign_factor u = - 1} = {1 / 2..<2 * pi}"
proof -
  have "(1 :: real) / 2 < 2 * pi" using pi_gt_zero pi_ge_two by linarith
  then show ?thesis by (auto simp: sign_factor_def)
qed

lemma offset_example_index:
  "getOffsetOf \<lparr> mData = [1, 1 :: complex], mExtents = [2], mTrafoType = FFT_INDEX \<rparr> [- 1, 0, 0, 0] = 1"
  by code_simp

lemma offset_example_inverted:
  "getOffsetOf \<lparr> mData = [1, 1 :: complex], mExtents = [2], mTrafoType = FFT_INDEX \<rparr> [1] = 1"
  by code_simp

text \<open>
  Claim C5 says that at a self-conjugate index the cell is multiplied by \<open>+1\<close> or
  \<open>-1\<close> with probability 1/2 each. The code multiplies by \<open>+1\<close> exactly when the
  draw is below 0.5, and the draw of the worker's generator is uniform on \<open>[0, 2\<pi>)\<close>:
  the draws that give \<open>+1\<close> are the interval \<open>[0, 1/2)\<close> and those that give \<open>-1\<close>
  the interval \<open>[1/2, 2\<pi>)\<close>, of lengths \<open>1/2\<close> and \<open>2\<pi> - 1/2\<close>. For instance the
  draw 1, in the lower half of the range, multiplies the self-conjugate cell at index
  \<open>-1\<close> of a grid of extent 2 by \<open>-1\<close>.
\<close>

theorem self_conjugate_sign_threshold:
  "randomize_at 1 (\<lambda>r. (1, r))
      (\<lparr> mData = [1, 1], mExtents = [2], mTrafoType = FFT_INDEX \<rparr>, ())
      \<lparr> mLowerBound = [- 1, 0, 0, 0], mUpperBound = [1, 0, 0, 0],
        mCurrentPos = [- 1, 0, 0, 0], mDimension = 1, mIsValid = True \<rparr>
    = Inr (\<lparr> mData = [1, - 1], mExtents = [2], mTrafoType = FFT_INDEX \<rparr>, ())
   \<and> (0 :: real) \<le> 1 \<and> 1 < pi
   \<and> {u. 0 \<le> u \<and> u < 2 * pi \<and> sign_factor u = 1} = {0..<1 / 2}
   \<and> {u. 0 \<le> u \<and> u < 2 * pi \<and> sign_factor u = - 1} = {1 / 2..<2 * pi}"
proof -
  have "randomize_at 1 (\<lambda>r. (1, r))
      (\<lparr> mData = [1, 1], mExtents = [2], mTrafoType = FFT_INDEX \<rparr>, ())
      \<lparr> mLowerBound = [- 1, 0, 0, 0], mUpperBound = [1, 0, 0, 0],
        mCurrentPos = [- 1, 0, 0, 0], mDimension = 1, mIsValid = True \<rparr>
    = Inr (\<lparr> mData = [1, - 1], mExtents = [2], mTrafoType = FFT_INDEX \<rparr>, ())"
    by (simp add: randomize_at_def offset_example_index offset_example_inverted cell_multiply_def
        sign_factor_def)
  moreover have "(1 :: real) < pi" using pi_ge_two by linarith
  ultimately show ?thesis using sign_factor_sets by simp
qed

subsection \<open>The Hermitian symmetry is kept\<close>

lemma scast_as_int: "(scast (x :: index_type) :: size_t) = word_of_int (sint x)"
  by simp

lemma unat_word_of_int64:
  "0 \<le> k \<Longrightarrow> k < 2 ^ 64 \<Longrightarrow> unat (word_of_int k :: size_t) = nat k"
  by (simp add: unat_eq_nat_uint uint_word_of_int take_bit_int_eq_self)

lemma uint_pos: "e \<noteq> 0 \<Longrightarrow> 0 < uint (e :: size_t)"
  using uint_ge_0 [of e] uint_0_iff [of e] by linarith

lemma fft_digit_less:
  assumes "e \<noteq> 0"
  shows "fft_digit e x < unat e"
proof -
  have p: "0 < uint e" using assms by (rule uint_pos)
  have "sint x mod uint e < uint e" using p by (rule pos_mod_bound)
  moreover have "0 \<le> sint x mod uint e" using p by simp
  moreover have "unat e = nat (uint e)" by simp
  ultimately show ?thesis unfolding fft_digit_def by linarith
qed

lemma fft_summand:
  fixes e :: size_t and x :: index_type
  assumes e: "e \<noteq> 0" and nx: "near e x"
  shows "unat (if x <s 0 then e + scast x else scast x) = fft_digit e x"
proof -
  have p: "0 < uint e" using e by (rule uint_pos)
  show ?thesis
  proof (cases "x <s 0")
    case False
    then have x0: "0 \<le> sint x" by (simp add: word_sless_alt)
    have "sint x \<le> uint e div 2" using nx by (simp add: near_def)
    then have xe: "sint x < uint e" using p by linarith
    have "sint x < 2 ^ 64" using sint_lt [of x] by (simp add: order_less_trans [of _ "2 ^ 31"])
    then have "unat (scast x :: size_t) = nat (sint x)"
      using x0 unat_word_of_int64 [of "sint x"] by (simp only: scast_as_int)
    moreover have "sint x mod uint e = sint x" using x0 xe by simp
    ultimately show ?thesis using False by (simp add: fft_digit_def)
  next
    case True
    then have x0: "sint x < 0" by (simp add: word_sless_alt)
    have lo: "- (uint e div 2) \<le> sint x" using nx by (simp add: near_def)
    let ?k = "uint e + sint x"
    have k: "0 \<le> ?k" "?k < uint e" using lo x0 p by linarith+
    have "uint e < 2 ^ 64" using uint_lt2p [of e] by simp
    then have k64: "?k < 2 ^ 64" using k(2) by linarith
    have "e + scast x = word_of_int ?k"
      by simp
    then have "unat (e + scast x) = nat ?k"
      using unat_word_of_int64 [OF k(1) k64] by simp
    moreover have "sint x mod uint e = ?k"
    proof -
      have "sint x mod uint e = ?k mod uint e" by simp
      also have "\<dots> = ?k" using k by (rule mod_pos_pos_trivial)
      finally show ?thesis .
    qed
    ultimately show ?thesis using True by (simp add: fft_digit_def)
  qed
qed

lemma FFTIndexFn_Suc:
  "FFTIndexFn (Suc k) n E = FFTIndexFn k n E * E ! k +
     (if n ! k <s 0 then E ! k + scast (n ! k) else scast (n ! k))"
  by (simp add: FFTIndexFn_def)

lemma fft_offset_Suc:
  "fft_offset (Suc k) n E = fft_offset k n E * unat (E ! k) + fft_digit (E ! k) (n ! k)"
  by (simp add: fft_offset_def)

lemma fft_offset_0: "fft_offset 0 n E = 0"
  by (simp add: fft_offset_def)

lemma prod_take_Suc:
  "k < length E \<Longrightarrow>
   prod_list (map unat (take (Suc k) E)) = prod_list (map unat (take k E)) * unat (E ! k)"
  by (simp add: take_Suc_conv_app_nth)

lemma fft_offset_less:
  assumes "k \<le> length E" "\<forall>i<k. E ! i \<noteq> 0"
  shows "fft_offset k n E < prod_list (map unat (take k E))"
  using assms
proof (induction k)
  case 0
  then show ?case by (simp add: fft_offset_0)
next
  case (Suc k)
  let ?e = "unat (E ! k)"
  have ih: "fft_offset k n E < prod_list (map unat (take k E))" using Suc by simp
  have d: "fft_digit (E ! k) (n ! k) < ?e" using Suc.prems(2) by (simp add: fft_digit_less)
  have "fft_offset k n E * ?e + fft_digit (E ! k) (n ! k) < (fft_offset k n E + 1) * ?e"
    using d by simp
  also have "\<dots> \<le> prod_list (map unat (take k E)) * ?e"
    using ih by (intro mult_le_mono1) simp
  finally show ?case using Suc.prems(1) by (simp add: fft_offset_Suc prod_take_Suc)
qed

lemma FFTIndexFn_unat:
  assumes "k \<le> length E" "\<forall>i<k. E ! i \<noteq> 0 \<and> near (E ! i) (n ! i)"
    "prod_list (map unat (take k E)) < 2 ^ 64"
  shows "unat (FFTIndexFn k n E) = fft_offset k n E"
  using assms
proof (induction k)
  case 0
  then show ?case by (simp add: fft_offset_0 FFTIndexFn_def)
next
  case (Suc k)
  let ?e = "E ! k"
  let ?c = "if n ! k <s 0 then ?e + scast (n ! k) else scast (n ! k)"
  have e0: "?e \<noteq> 0" and nr: "near ?e (n ! k)" using Suc.prems(2) by simp_all
  have e1: "1 \<le> unat ?e" using e0 unat_gt_0 [of ?e] by simp
  have pS: "prod_list (map unat (take k E)) * unat ?e < 2 ^ 64"
    using Suc.prems(1,3) by (simp add: prod_take_Suc)
  have "prod_list (map unat (take k E)) \<le> prod_list (map unat (take k E)) * unat ?e"
    using e1 by simp
  then have pk: "prod_list (map unat (take k E)) < 2 ^ 64"
    by (rule order_le_less_trans [OF _ pS])
  have ih: "unat (FFTIndexFn k n E) = fft_offset k n E"
    using Suc.IH Suc.prems pk by simp
  have c: "unat ?c = fft_digit ?e (n ! k)" using e0 nr by (rule fft_summand)
  have lt: "fft_offset (Suc k) n E < prod_list (map unat (take (Suc k) E))"
    using Suc.prems(1,2) by (intro fft_offset_less) simp_all
  then have lt64: "fft_offset k n E * unat ?e + fft_digit ?e (n ! k) < 2 ^ 64"
    using Suc.prems(3) by (simp add: fft_offset_Suc)
  then have "unat (FFTIndexFn k n E) * unat ?e < 2 ^ LENGTH(64)" using ih by simp
  then have m: "unat (FFTIndexFn k n E * ?e) = fft_offset k n E * unat ?e"
    using unat_mult_lem [of "FFTIndexFn k n E" ?e] ih by simp
  have "unat (FFTIndexFn k n E * ?e) + unat ?c < 2 ^ LENGTH(64)"
    using lt64 by (simp only: m c) simp
  then have "unat (FFTIndexFn k n E * ?e + ?c) = fft_offset k n E * unat ?e + fft_digit ?e (n ! k)"
    using unat_add_lem [of "FFTIndexFn k n E * ?e" ?c] by (simp only: m c)
  then show ?case by (simp only: FFTIndexFn_Suc fft_offset_Suc)
qed

lemma mixed_radix_eq:
  fixes a a' c c' e :: nat
  assumes "c < e" "c' < e"
  shows "a * e + c = a' * e + c' \<longleftrightarrow> a = a' \<and> c = c'"
proof
  assume eq: "a * e + c = a' * e + c'"
  have "(a * e + c) div e = a" "(a * e + c) mod e = c" using assms by simp_all
  moreover have "(a' * e + c') div e = a'" "(a' * e + c') mod e = c'" using assms by simp_all
  ultimately show "a = a' \<and> c = c'" using eq by metis
qed simp

lemma fft_offset_inj:
  assumes "\<forall>i<k. E ! i \<noteq> 0"
  shows "fft_offset k m E = fft_offset k n E \<longleftrightarrow>
           (\<forall>i<k. fft_digit (E ! i) (m ! i) = fft_digit (E ! i) (n ! i))"
  using assms
proof (induction k)
  case 0
  then show ?case by (simp add: fft_offset_0)
next
  case (Suc k)
  have e0: "E ! k \<noteq> 0" using Suc.prems by simp
  have ih: "fft_offset k m E = fft_offset k n E \<longleftrightarrow>
           (\<forall>i<k. fft_digit (E ! i) (m ! i) = fft_digit (E ! i) (n ! i))"
    using Suc by simp
  show ?case
    unfolding fft_offset_Suc
    using mixed_radix_eq [OF fft_digit_less [OF e0, of "m ! k"] fft_digit_less [OF e0, of "n ! k"]] ih
    by (auto simp: less_Suc_eq)
qed

lemma sint_uminus:
  fixes x :: index_type
  assumes "- (2 ^ 31) < sint x"
  shows "sint (- x) = - sint x"
proof -
  have "sint x < 2 ^ 31" using sint_lt [of x] by simp
  then have "- (2 ^ 31) \<le> - sint x \<and> - sint x < 2 ^ 31" using assms by simp
  then have "signed_take_bit 31 (- sint x) = - sint x"
    by (simp add: signed_take_bit_int_eq_self)
  then show ?thesis by (simp add: sint_word_minus)
qed

lemma near_uminus:
  assumes "e < 2147483648" "near e x"
  shows "sint (- x) = - sint x \<and> near e (- x)"
proof -
  have "uint e < 2147483648" using assms(1) by (simp add: word_less_def)
  then have "- 2147483648 < sint x" using assms(2) unfolding near_def by linarith
  then have "- (2 ^ 31) < sint x" by simp
  then have "sint (- x) = - sint x" by (rule sint_uminus)
  then show ?thesis using assms(2) by (simp add: near_def)
qed

lemma neg_mod_cong: "(a :: int) mod b = a' mod b \<Longrightarrow> (- a) mod b = (- a') mod b"
  by (metis mod_minus_eq)

lemma fft_digit_uminus:
  assumes "e \<noteq> 0" "e < 2147483648" "near e x" "near e y"
  shows "fft_digit e (- x) = fft_digit e (- y) \<longleftrightarrow> fft_digit e x = fft_digit e y"
proof -
  have p: "0 < uint e" using assms(1) by (rule uint_pos)
  have sx: "sint (- x) = - sint x" and sy: "sint (- y) = - sint y"
    using near_uminus assms by simp_all
  have nn: "\<And>a. 0 \<le> a mod uint e" using p by simp
  have "(- sint x) mod uint e = (- sint y) mod uint e \<longleftrightarrow> sint x mod uint e = sint y mod uint e"
    using neg_mod_cong [of "sint x" "uint e" "sint y"]
      neg_mod_cong [of "- sint x" "uint e" "- sint y"] by auto
  then show ?thesis using nn by (simp add: fft_digit_def sx sy nat_eq_iff)
qed

lemma safe_product_from_value:
  assumes "safe_product_from p fs = Inr r" "\<forall>f\<in>set fs. f \<noteq> 0"
  shows "unat r = unat p * prod_list (map unat fs)"
  using assms
proof (induction fs arbitrary: p)
  case Nil
  then show ?case by simp
next
  case (Cons f fs)
  have f0: "f \<noteq> 0" using Cons.prems(2) by simp
  have no: "p < (- 1) div f" and rec: "safe_product_from (p * f) fs = Inr r"
    using Cons.prems(1) f0 by (auto split: if_splits)
  have "unat (- 1 :: size_t) = 18446744073709551615"
    by (simp add: unsigned_minus_1_eq_mask mask_eq_exp_minus_1)
  then have "unat ((- 1 :: size_t) div f) = 18446744073709551615 div unat f"
    by (simp only: unat_div)
  then have "unat p < 18446744073709551615 div unat f"
    using no by (simp add: word_less_nat_alt)
  then have "Suc (unat p) \<le> 18446744073709551615 div unat f" by simp
  then have "Suc (unat p) * unat f \<le> (18446744073709551615 div unat f) * unat f"
    by (rule mult_le_mono1)
  also have "\<dots> \<le> 18446744073709551615" by simp
  finally have "unat p * unat f < 2 ^ LENGTH(64)" by simp
  then have "unat (p * f) = unat p * unat f"
    using unat_mult_lem [of p f] by simp
  moreover have "unat r = unat (p * f) * prod_list (map unat fs)"
    using Cons.IH [OF rec] Cons.prems(2) by simp
  ultimately show ?case by simp
qed

lemma fft_grid_facts:
  assumes "fft_grid_ok g"
  shows "getOffsetOf g n = FFTIndexFn (length (mExtents g)) n (mExtents g)"
    and "prod_list (map unat (mExtents g)) = length (mData g)"
    and "length (mData g) < 2 ^ 64"
    and "\<forall>i<length (mExtents g). mExtents g ! i \<noteq> 0 \<and> mExtents g ! i < 2147483648
           \<and> even (uint (mExtents g ! i))"
    and "1 \<le> length (mExtents g)" "length (mExtents g) \<le> 3"
proof -
  have t: "mTrafoType g = FFT_INDEX" and gk: "grid_ok g" and d3: "length (mExtents g) \<le> 3"
    and ev: "list_all (\<lambda>e. e mod 2 = 0 \<and> e \<noteq> 0 \<and> e < 2147483648) (mExtents g)"
    using assms by (simp_all add: fft_grid_ok_def getDimension_def)
  have d1: "1 \<le> length (mExtents g)" and sp: "safe_product (mExtents g) = Inr (word_of_nat (length (mData g)))"
    and l64: "length (mData g) < 2 ^ 64"
    using gk by (simp_all add: grid_ok_def getDimension_def)
  show "1 \<le> length (mExtents g)" "length (mExtents g) \<le> 3" "length (mData g) < 2 ^ 64"
    using d1 d3 l64 by simp_all
  have "getIndexFn FFT_INDEX (length (mExtents g)) = Inr (FFTIndexFn (length (mExtents g)))"
    using d1 d3 getIndexFn_ok [of "length (mExtents g)" FFT_INDEX]
    by (simp add: getIndexFnTemplate_def)
  then show "getOffsetOf g n = FFTIndexFn (length (mExtents g)) n (mExtents g)"
    by (simp add: getOffsetOf_def t getDimension_def)
  have nz: "\<forall>f\<in>set (mExtents g). f \<noteq> 0" using ev by (simp add: list_all_iff)
  have "unat (word_of_nat (length (mData g)) :: size_t) = unat (1 :: size_t) * prod_list (map unat (mExtents g))"
    using sp nz unfolding safe_product_def by (rule safe_product_from_value)
  then show "prod_list (map unat (mExtents g)) = length (mData g)"
    using l64 by (simp add: unat_of_nat64)
  show "\<forall>i<length (mExtents g). mExtents g ! i \<noteq> 0 \<and> mExtents g ! i < 2147483648
           \<and> even (uint (mExtents g ! i))"
  proof (intro allI impI)
    fix i assume "i < length (mExtents g)"
    then have e: "mExtents g ! i mod 2 = 0" "mExtents g ! i \<noteq> 0" "mExtents g ! i < 2147483648"
      using ev by (simp_all add: list_all_length)
    have "uint (mExtents g ! i mod 2) = uint (mExtents g ! i) mod 2"
      by (simp add: uint_mod)
    then have "even (uint (mExtents g ! i))" using e(1) by (simp add: even_iff_mod_2_eq_zero)
    then show "mExtents g ! i \<noteq> 0 \<and> mExtents g ! i < 2147483648 \<and> even (uint (mExtents g ! i))"
      using e by simp
  qed
qed

lemma fft_index_near:
  assumes "fft_index E n" "\<forall>i<length E. E ! i < 2147483648"
  shows "near_index E n" "near_index E (map uminus n)" "length n = length E"
proof -
  have l: "length n = length E"
    and a2: "list_all2 (\<lambda>e x. - int (unat e div 2) \<le> sint x \<and> sint x < int (unat e div 2)) E n"
    using assms(1) unfolding fft_index_def by blast+
  have b: "- int (unat (E ! i) div 2) \<le> sint (n ! i) \<and> sint (n ! i) < int (unat (E ! i) div 2)"
    if "i < length E" for i
    using list_all2_nthD [OF a2 that] .
  show "length n = length E" by (rule l)
  have nr: "near (E ! i) (n ! i)" if "i < length E" for i
  proof -
    have "int (unat (E ! i) div 2) = uint (E ! i) div 2" by (simp add: zdiv_int)
    then show ?thesis using b [OF that] by (simp add: near_def)
  qed
  then show "near_index E n" by (simp add: near_index_def)
  show "near_index E (map uminus n)"
    unfolding near_index_def
  proof (intro allI impI)
    fix i assume i: "i < length E"
    have "near (E ! i) (- (n ! i))" using near_uminus [of "E ! i" "n ! i"] nr [OF i] assms(2) i by simp
    then show "near (E ! i) (map uminus n ! i)" using i l by simp
  qed
qed

lemma offset_near:
  assumes ok: "fft_grid_ok g" and nr: "near_index (mExtents g) n"
  shows "unat (getOffsetOf g n) = fft_offset (length (mExtents g)) n (mExtents g)"
    and "unat (getOffsetOf g n) < length (mData g)"
proof -
  let ?E = "mExtents g"
  note f = fft_grid_facts [OF ok]
  have a: "\<forall>i<length ?E. ?E ! i \<noteq> 0 \<and> near (?E ! i) (n ! i)"
    using f(4) nr by (simp add: near_index_def)
  have p: "prod_list (map unat (take (length ?E) ?E)) < 2 ^ 64" using f(2,3) by simp
  show u: "unat (getOffsetOf g n) = fft_offset (length ?E) n ?E"
    using FFTIndexFn_unat [OF order_refl a p] by (simp add: f(1))
  have "fft_offset (length ?E) n ?E < prod_list (map unat (take (length ?E) ?E))"
    using a by (intro fft_offset_less) simp_all
  then show "unat (getOffsetOf g n) < length (mData g)" using u f(2) by simp
qed

lemma offset_eq_iff:
  assumes ok: "fft_grid_ok g" and "near_index (mExtents g) m" "near_index (mExtents g) n"
  shows "getOffsetOf g m = getOffsetOf g n \<longleftrightarrow>
           (\<forall>i<length (mExtents g). fft_digit (mExtents g ! i) (m ! i) = fft_digit (mExtents g ! i) (n ! i))"
proof -
  note f = fft_grid_facts [OF ok]
  have "getOffsetOf g m = getOffsetOf g n \<longleftrightarrow> unat (getOffsetOf g m) = unat (getOffsetOf g n)"
    by (simp add: word_unat_eq_iff)
  also have "\<dots> \<longleftrightarrow> fft_offset (length (mExtents g)) m (mExtents g) =
                      fft_offset (length (mExtents g)) n (mExtents g)"
    using offset_near(1) [OF ok] assms(2,3) by simp
  also have "\<dots> \<longleftrightarrow> (\<forall>i<length (mExtents g).
        fft_digit (mExtents g ! i) (m ! i) = fft_digit (mExtents g ! i) (n ! i))"
    using f(4) by (intro fft_offset_inj) simp
  finally show ?thesis .
qed

lemma offset_symmetry:
  assumes ok: "fft_grid_ok g" and m: "fft_index (mExtents g) m" and n: "fft_index (mExtents g) n"
  shows "getOffsetOf g (map uminus m) = getOffsetOf g (map uminus n) \<longleftrightarrow>
           getOffsetOf g m = getOffsetOf g n"
    and "getOffsetOf g (map uminus m) = getOffsetOf g n \<longleftrightarrow>
           getOffsetOf g m = getOffsetOf g (map uminus n)"
proof -
  let ?E = "mExtents g"
  note f = fft_grid_facts [OF ok]
  have b: "\<forall>i<length ?E. ?E ! i < 2147483648" using f(4) by simp
  note nm = fft_index_near [OF m b] and nn = fft_index_near [OF n b]
  have d1: "fft_digit (?E ! i) (map uminus m ! i) = fft_digit (?E ! i) (map uminus n ! i) \<longleftrightarrow>
            fft_digit (?E ! i) (m ! i) = fft_digit (?E ! i) (n ! i)" if i: "i < length ?E" for i
    using fft_digit_uminus [of "?E ! i" "m ! i" "n ! i"] f(4) nm(1,3) nn(1,3) i
    by (simp add: near_index_def)
  have d2: "fft_digit (?E ! i) (map uminus m ! i) = fft_digit (?E ! i) (n ! i) \<longleftrightarrow>
            fft_digit (?E ! i) (m ! i) = fft_digit (?E ! i) (map uminus n ! i)" if i: "i < length ?E" for i
    using fft_digit_uminus [of "?E ! i" "m ! i" "- (n ! i)"] f(4) nm(1,3) nn(1,2,3) i
    by (auto simp: near_index_def)
  show "getOffsetOf g (map uminus m) = getOffsetOf g (map uminus n) \<longleftrightarrow>
           getOffsetOf g m = getOffsetOf g n"
    using d1 by (simp add: offset_eq_iff [OF ok] nm nn)
  show "getOffsetOf g (map uminus m) = getOffsetOf g n \<longleftrightarrow>
           getOffsetOf g m = getOffsetOf g (map uminus n)"
    using d2 by (simp add: offset_eq_iff [OF ok] nm nn)
qed

lemma getOffsetOf_data [simp]: "getOffsetOf (g\<lparr> mData := ys \<rparr>) m = getOffsetOf g m"
  by (simp add: getOffsetOf_def getDimension_def split: sum.splits)

lemma fft_grid_ok_data:
  assumes "fft_grid_ok g" "length ys = length (mData g)"
  shows "fft_grid_ok (g\<lparr> mData := ys \<rparr>)"
  using assms by (simp add: fft_grid_ok_def grid_ok_def getDimension_def thread_count_def)

lemma hermitian_cells:
  assumes "hermitian g" "fft_index (mExtents g) m"
  shows "mData g ! unat (getOffsetOf g m) = cnj (mData g ! unat (getOffsetOf g (map uminus m)))"
  using assms by (simp add: hermitian_def cell_at_def)

lemma hermitian_update2:
  assumes ok: "fft_grid_ok g" and h: "hermitian g" and n: "fft_index (mExtents g) n"
    and a: "a = unat (getOffsetOf g n)" and b: "b = unat (getOffsetOf g (map uminus n))"
    and ab: "a \<noteq> b"
  shows "hermitian (g\<lparr> mData := ((mData g)[a := mData g ! a * f])[b := mData g ! b * cnj f] \<rparr>)"
  unfolding hermitian_def
proof (intro allI impI)
  fix m
  let ?xs = "mData g"
  let ?ys = "(?xs[a := ?xs ! a * f])[b := ?xs ! b * cnj f]"
  let ?g = "g\<lparr> mData := ?ys \<rparr>"
  assume "fft_index (mExtents ?g) m"
  then have m: "fft_index (mExtents g) m" by simp
  define c where "c = unat (getOffsetOf g m)"
  define d where "d = unat (getOffsetOf g (map uminus m))"
  note f = fft_grid_facts [OF ok]
  have bd: "\<forall>i<length (mExtents g). mExtents g ! i < 2147483648" using f(4) by simp
  note nm = fft_index_near [OF m bd] and nn = fft_index_near [OF n bd]
  have la: "a < length ?xs" and lb: "b < length ?xs" and lc: "c < length ?xs" and ld: "d < length ?xs"
    using offset_near(2) [OF ok] nm nn by (simp_all add: a b c_def d_def)
  have s1: "d = b \<longleftrightarrow> c = a"
    using offset_symmetry(1) [OF ok m n] by (simp add: a b c_def d_def word_unat_eq_iff)
  have s2: "d = a \<longleftrightarrow> c = b"
    using offset_symmetry(2) [OF ok m n] by (simp add: a b c_def d_def word_unat_eq_iff)
  have hm: "?xs ! c = cnj (?xs ! d)" using hermitian_cells [OF h m] by (simp add: c_def d_def)
  have "?ys ! c = cnj (?ys ! d)"
  proof (cases "c = a")
    case True
    then have "d = b" using s1 by simp
    then show ?thesis using True ab la lb hm by (simp add: nth_list_update)
  next
    case False
    then have db: "d \<noteq> b" using s1 by simp
    show ?thesis
    proof (cases "c = b")
      case True
      then have "d = a" using s2 by simp
      then show ?thesis using True ab la lb hm by (simp add: nth_list_update)
    next
      case cb: False
      then have "d \<noteq> a" using s2 by simp
      then show ?thesis using False cb db hm by (simp add: nth_list_update)
    qed
  qed
  then show "cell_at ?g m = cnj (cell_at ?g (map uminus m))"
    by (simp add: cell_at_def c_def d_def)
qed

lemma hermitian_update1:
  assumes ok: "fft_grid_ok g" and h: "hermitian g" and n: "fft_index (mExtents g) n"
    and a: "a = unat (getOffsetOf g n)" and b: "a = unat (getOffsetOf g (map uminus n))"
    and s: "cnj s = s"
  shows "hermitian (g\<lparr> mData := (mData g)[a := mData g ! a * s] \<rparr>)"
  unfolding hermitian_def
proof (intro allI impI)
  fix m
  let ?xs = "mData g"
  let ?ys = "?xs[a := ?xs ! a * s]"
  let ?g = "g\<lparr> mData := ?ys \<rparr>"
  assume "fft_index (mExtents ?g) m"
  then have m: "fft_index (mExtents g) m" by simp
  define c where "c = unat (getOffsetOf g m)"
  define d where "d = unat (getOffsetOf g (map uminus m))"
  note f = fft_grid_facts [OF ok]
  have bd: "\<forall>i<length (mExtents g). mExtents g ! i < 2147483648" using f(4) by simp
  note nm = fft_index_near [OF m bd] and nn = fft_index_near [OF n bd]
  have la: "a < length ?xs" and lc: "c < length ?xs" and ld: "d < length ?xs"
    using offset_near(2) [OF ok] nm nn by (simp_all add: a c_def d_def)
  have s1: "d = a \<longleftrightarrow> c = a"
    using offset_symmetry(1) [OF ok m n] a b by (simp add: c_def d_def word_unat_eq_iff)
  have hm: "?xs ! c = cnj (?xs ! d)" using hermitian_cells [OF h m] by (simp add: c_def d_def)
  have "?ys ! c = cnj (?ys ! d)"
    using s1 la hm s by (cases "c = a") (simp_all add: nth_list_update)
  then show "cell_at ?g m = cnj (cell_at ?g (map uminus m))"
    by (simp add: cell_at_def c_def d_def)
qed

lemma FFTIndexFn_take: "FFTIndexFn D (take D p) E = FFTIndexFn D p E"
  unfolding FFTIndexFn_def by (rule foldl_cong) simp_all

lemma sign_factor_real: "cnj (sign_factor u) = sign_factor u"
  by (simp add: sign_factor_def)

lemma randomize_at_step:
  assumes ok: "fft_grid_ok g" and h: "hermitian g"
    and D: "D = length (mExtents g)" and lp: "D \<le> length (mCurrentPos idx)"
    and box: "fft_index (mExtents g) (take D (mCurrentPos idx))"
  shows "\<exists>g' r'. randomize_at D rnd (g, r) idx = Inr (g', r') \<and> fft_grid_ok g' \<and> hermitian g'
           \<and> mExtents g' = mExtents g"
proof -
  let ?p = "mCurrentPos idx"
  let ?n = "take D ?p"
  let ?xs = "mData g"
  note f = fft_grid_facts [OF ok]
  have bd: "\<forall>i<length (mExtents g). mExtents g ! i < 2147483648" using f(4) by simp
  note nn = fft_index_near [OF box bd]
  have inv: "map (\<lambda>i. - (?p ! i)) [0..<D] = map uminus ?n"
    using lp by (intro nth_equalityI) simp_all
  have off: "getOffsetOf g ?p = getOffsetOf g ?n"
    by (simp add: f(1) D FFTIndexFn_take)
  define a where "a = unat (getOffsetOf g ?n)"
  define b where "b = unat (getOffsetOf g (map uminus ?n))"
  have la: "a < length ?xs" and lb: "b < length ?xs"
    using offset_near(2) [OF ok] nn by (simp_all add: a_def b_def)
  obtain v r' where rn: "rnd r = (v, r')" by (cases "rnd r")
  consider (lt) "getOffsetOf g ?n < getOffsetOf g (map uminus ?n)"
    | (eq) "getOffsetOf g ?n = getOffsetOf g (map uminus ?n)"
    | (gt) "getOffsetOf g (map uminus ?n) < getOffsetOf g ?n"
    by (metis linorder_neqE)
  then show ?thesis
  proof cases
    case lt
    then have ab: "a \<noteq> b" by (simp add: a_def b_def word_less_nat_alt)
    let ?f = "phase_factor v"
    let ?g2 = "g\<lparr> mData := (?xs[a := ?xs ! a * ?f])[b := ?xs ! b * cnj ?f] \<rparr>"
    have "randomize_at D rnd (g, r) idx = Inr (?g2, r')"
      using lt la lb ab
      by (simp add: randomize_at_def Let_def inv off rn cell_multiply_def a_def [symmetric] b_def [symmetric])
    moreover have "hermitian ?g2"
      by (rule hermitian_update2 [OF ok h box a_def b_def ab])
    moreover have "fft_grid_ok ?g2" by (rule fft_grid_ok_data [OF ok]) simp
    ultimately show ?thesis by simp
  next
    case eq
    then have ab: "a = unat (getOffsetOf g (map uminus ?n))" by (simp add: a_def)
    let ?s = "sign_factor v"
    let ?g1 = "g\<lparr> mData := ?xs[a := ?xs ! a * ?s] \<rparr>"
    have "randomize_at D rnd (g, r) idx = Inr (?g1, r')"
      using eq la
      by (simp add: randomize_at_def Let_def inv off rn cell_multiply_def ab [symmetric])
    moreover have "hermitian ?g1"
      by (rule hermitian_update1 [OF ok h box a_def ab sign_factor_real])
    moreover have "fft_grid_ok ?g1" by (rule fft_grid_ok_data [OF ok]) simp
    ultimately show ?thesis by simp
  next
    case gt
    have n1: "\<not> getOffsetOf g ?n < getOffsetOf g (map uminus ?n)"
      using gt by (rule less_not_sym)
    have n2: "getOffsetOf g ?n \<noteq> getOffsetOf g (map uminus ?n)"
      using less_imp_neq [OF gt] by (rule not_sym)
    have "randomize_at D rnd (g, r) idx = Inr (g, r)"
      by (simp add: randomize_at_def Let_def inv off n1 n2)
    then show ?thesis using ok h by simp
  qed
qed

lemma increment_from_step:
  assumes "increment_from k lo up cur = (cur', Some j)" "k \<le> length cur"
  shows "j < k \<and> (\<forall>i<j. cur' ! i = cur ! i) \<and> cur' ! j = cur ! j + 1 \<and> cur' ! j <s up ! j"
  using assms
proof (induction k arbitrary: cur)
  case 0
  then show ?case by simp
next
  case (Suc k)
  let ?c1 = "cur[k := cur ! k + 1]"
  have k: "k < length cur" using Suc.prems(2) by simp
  show ?case
  proof (cases "?c1 ! k <s up ! k")
    case True
    then have "cur' = ?c1" "j = k" using Suc.prems(1) by (auto simp: Let_def)
    then show ?thesis using True k by simp
  next
    case False
    let ?c2 = "?c1[k := lo ! k]"
    have rec: "increment_from k lo up ?c2 = (cur', Some j)"
      using False Suc.prems(1) by (simp add: Let_def)
    have "j < k \<and> (\<forall>i<j. cur' ! i = ?c2 ! i) \<and> cur' ! j = ?c2 ! j + 1 \<and> cur' ! j <s up ! j"
      by (rule Suc.IH [OF rec]) (use k in simp)
    then show ?thesis by (auto simp: nth_list_update)
  qed
qed

lemma increment_from_length:
  "increment_from k lo up cur = (cur', r) \<Longrightarrow> length cur' = length cur"
proof (induction k arbitrary: cur)
  case 0
  then show ?case by simp
next
  case (Suc k)
  show ?case
  proof (cases "cur[k := cur ! k + 1] ! k <s up ! k")
    case True
    then show ?thesis using Suc.prems by (auto simp: Let_def)
  next
    case False
    then have "increment_from k lo up (cur[k := cur ! k + 1, k := lo ! k]) = (cur', r)"
      using Suc.prems by (simp add: Let_def)
    then show ?thesis using Suc.IH by fastforce
  qed
qed

lemma increment_decreases:
  assumes st: "storage_ok idx" and v: "valid idx" and box: "in_box idx"
  shows "(fst (increment idx), idx) \<in> loop_order"
proof -
  let ?D = "mDimension idx"
  obtain cur' res where r: "increment_from ?D (mLowerBound idx) (mUpperBound idx) (mCurrentPos idx)
      = (cur', res)"
    by (cases "increment_from ?D (mLowerBound idx) (mUpperBound idx) (mCurrentPos idx)")
  show ?thesis
  proof (cases res)
    case None
    then have "\<not> valid (fst (increment idx))" by (simp add: increment_def r valid_def)
    then show ?thesis using v by (simp add: loop_order_def)
  next
    case (Some j)
    have len: "?D \<le> length (mCurrentPos idx)" "?D \<le> 4"
      using st by (simp_all add: storage_ok_def MAX_MULTIINDEX_DIMENSION_def)
    have s: "j < ?D" "\<forall>i<j. cur' ! i = mCurrentPos idx ! i"
      "cur' ! j = mCurrentPos idx ! j + 1" "cur' ! j <s mUpperBound idx ! j"
      using increment_from_step [OF r [unfolded Some] len(1)] by blast+
    have inc: "fst (increment idx) = idx\<lparr> mCurrentPos := cur' \<rparr>"
      by (simp add: increment_def r Some)
    have cj: "mCurrentPos idx ! j <s mUpperBound idx ! j"
      using box s(1) by (simp add: in_box_iff)
    have "sint (cur' ! j) = sint (mCurrentPos idx ! j) + 1"
      using sint_succ_below [OF cj] s(3) by simp
    moreover have "sint (cur' ! j) < sint (mUpperBound idx ! j)"
      using s(4) by (simp add: word_sless_alt)
    ultimately have dec: "left_on_axis j (fst (increment idx)) < left_on_axis j idx"
      by (simp add: left_on_axis_def inc)
    have same: "\<forall>i<j. left_on_axis i (fst (increment idx)) = left_on_axis i idx"
      using s(2) by (simp add: left_on_axis_def inc)
    have vv: "valid (fst (increment idx)) = valid idx" by (simp add: inc valid_def)
    have "j \<in> {0, 1, 2, 3}" using s(1) len(2) by auto
    then show ?thesis using dec same vv
      by (auto simp: loop_order_def)
  qed
qed

lemma increment_sub_ok:
  assumes "sub_ok E idx"
  shows "sub_ok E (fst (increment idx))"
proof -
  have st: "storage_ok idx" and inv: "index_invariant idx" using assms by (simp_all add: sub_ok_def)
  obtain cur' res where r: "increment_from (mDimension idx) (mLowerBound idx) (mUpperBound idx)
      (mCurrentPos idx) = (cur', res)"
    by (cases "increment_from (mDimension idx) (mLowerBound idx) (mUpperBound idx) (mCurrentPos idx)")
  have shape: "mLowerBound (fst (increment idx)) = mLowerBound idx"
    "mUpperBound (fst (increment idx)) = mUpperBound idx"
    "mDimension (fst (increment idx)) = mDimension idx"
    "mCurrentPos (fst (increment idx)) = cur'"
    by (cases res; simp add: increment_def r)+
  have "length cur' = length (mCurrentPos idx)"
    using r by (rule increment_from_length)
  then have "storage_ok (fst (increment idx))" using st by (simp add: storage_ok_def shape)
  then show ?thesis
    using assms increment_keeps_invariant [OF st inv] by (simp add: sub_ok_def shape)
qed

lemma wf_loop_order: "wf loop_order"
  by (simp add: loop_order_def)

lemma position_in_fft_box:
  assumes ok: "sub_ok E idx" and v: "valid idx"
  shows "fft_index E (take (length E) (mCurrentPos idx))"
proof -
  have st: "storage_ok idx" and d: "mDimension idx = length E" and inv: "index_invariant idx"
    and bd: "\<And>i. i < length E \<Longrightarrow> - (uint (E ! i) div 2) \<le> sint (mLowerBound idx ! i) \<and>
                     sint (mUpperBound idx ! i) \<le> uint (E ! i) div 2"
    using ok by (simp_all add: sub_ok_def)
  have box: "in_box idx" using inv v by (simp add: index_invariant_def)
  have len: "length (take (length E) (mCurrentPos idx)) = length E"
    using st d by (simp add: storage_ok_def)
  have "list_all2 (\<lambda>e x. - int (unat e div 2) \<le> sint x \<and> sint x < int (unat e div 2)) E
          (take (length E) (mCurrentPos idx))"
  proof (rule list_all2_all_nthI)
    show "length E = length (take (length E) (mCurrentPos idx))" using len by simp
  next
    fix i assume i: "i < length E"
    have c: "sint (mLowerBound idx ! i) \<le> sint (mCurrentPos idx ! i)"
         "sint (mCurrentPos idx ! i) < sint (mUpperBound idx ! i)"
      using box i d by (simp_all add: in_box_iff word_sle_eq word_sless_alt)
    have "int (unat (E ! i) div 2) = uint (E ! i) div 2" by (simp add: zdiv_int)
    then show "- int (unat (E ! i) div 2) \<le> sint (take (length E) (mCurrentPos idx) ! i) \<and>
               sint (take (length E) (mCurrentPos idx) ! i) < int (unat (E ! i) div 2)"
      using c bd [OF i] i by simp
  qed
  then show ?thesis using len by (simp add: fft_index_def)
qed

lemma randomize_loop_total:
  shows "sub_ok E idx \<Longrightarrow> fft_grid_ok g \<Longrightarrow> hermitian g \<Longrightarrow> mExtents g = E \<Longrightarrow>
         \<exists>g' r'. randomize_loop (length E) rnd (g, r) idx = Some (Inr (g', r')) \<and>
                 fft_grid_ok g' \<and> hermitian g' \<and> mExtents g' = E"
proof (induction idx arbitrary: g r rule: wf_induct_rule [OF wf_loop_order])
  case (1 idx)
  show ?case
  proof (cases "valid idx")
    case False
    then have "randomize_loop (length E) rnd (g, r) idx = Some (Inr (g, r))"
      by (subst randomize_loop.simps) simp
    then show ?thesis using "1.prems" by simp
  next
    case True
    have st: "storage_ok idx" and inv: "index_invariant idx"
      using "1.prems"(1) by (simp_all add: sub_ok_def)
    have box: "in_box idx" using inv True by (simp add: index_invariant_def)
    have pos: "fft_index (mExtents g) (take (length (mExtents g)) (mCurrentPos idx))"
      using position_in_fft_box [OF "1.prems"(1) True] "1.prems"(4) by simp
    have lp: "length (mExtents g) \<le> length (mCurrentPos idx)"
      using st "1.prems"(1,4) by (simp add: storage_ok_def sub_ok_def)
    obtain g1 r1 where step: "randomize_at (length (mExtents g)) rnd (g, r) idx = Inr (g1, r1)"
      and g1: "fft_grid_ok g1" "hermitian g1" "mExtents g1 = mExtents g"
      using randomize_at_step [OF "1.prems"(2,3) refl lp pos, of rnd r] by blast
    have dec: "(fst (increment idx), idx) \<in> loop_order"
      using st True box by (rule increment_decreases)
    have sub: "sub_ok E (fst (increment idx))"
      using "1.prems"(1) by (rule increment_sub_ok)
    obtain g' r' where
      rest: "randomize_loop (length E) rnd (g1, r1) (fst (increment idx)) = Some (Inr (g', r'))"
      and g': "fft_grid_ok g'" "hermitian g'" "mExtents g' = E"
      using "1.IH" [OF dec sub g1(1,2), of r1] g1(3) "1.prems"(4) by auto
    have "randomize_loop (length E) rnd (g, r) idx = Some (Inr (g', r'))"
      using True step rest "1.prems"(4) by (subst randomize_loop.simps) simp
    then show ?thesis using g' by simp
  qed
qed

lemma randomize_generic_total:
  assumes "sub_ok (mExtents g) idx" "valid idx" "fft_grid_ok g" "hermitian g"
  shows "\<exists>g' r'. randomize_generic rnd g r idx = Some (Inr (g', r')) \<and>
                 fft_grid_ok g' \<and> hermitian g' \<and> mExtents g' = mExtents g"
proof -
  note f = fft_grid_facts [OF assms(3)]
  have "length (mExtents g) \<in> {1, 2, 3}" using f(5,6) by auto
  then have "randomize_generic rnd g r idx = randomize_loop (length (mExtents g)) rnd (g, r) idx"
    using assms(2) by (auto simp: randomize_generic_def randomize_over_index_def getDimension_def)
  then show ?thesis
    using randomize_loop_total [OF assms(1,3,4) refl, of rnd r] by simp
qed

lemma run_tasks_total:
  shows "\<forall>s\<in>set subs. sub_ok (mExtents g) s \<and> valid s \<Longrightarrow> fft_grid_ok g \<Longrightarrow> hermitian g \<Longrightarrow>
         \<exists>g'. run_tasks rnd gen k subs g = Some (Inr g') \<and>
                 fft_grid_ok g' \<and> hermitian g' \<and> mExtents g' = mExtents g"
proof (induction subs arbitrary: g k)
  case Nil
  then show ?case by simp
next
  case (Cons s subs)
  have s: "sub_ok (mExtents g) s" "valid s" using Cons.prems(1) by simp_all
  obtain g1 r1 where t: "randomize_generic rnd g (gen k) s = Some (Inr (g1, r1))"
    and g1: "fft_grid_ok g1" "hermitian g1" "mExtents g1 = mExtents g"
    using randomize_generic_total [OF s Cons.prems(2,3), of rnd "gen k"] by blast
  have "\<forall>s\<in>set subs. sub_ok (mExtents g1) s \<and> valid s" using Cons.prems(1) g1(3) by simp
  then obtain g' where "run_tasks rnd gen (Suc k) subs g1 = Some (Inr g')"
    "fft_grid_ok g'" "hermitian g'" "mExtents g' = mExtents g1"
    using Cons.IH [OF _ g1(1,2), of "Suc k"] by blast
  then show ?case using t g1(3) by simp
qed

lemma sint_word_of_int32:
  "- 2147483648 \<le> k \<Longrightarrow> k < 2147483648 \<Longrightarrow> sint (word_of_int k :: index_type) = k"
  by (simp add: sint_sbintrunc' signed_take_bit_int_eq_self)

lemma ucast_as_int: "(ucast (w :: size_t) :: index_type) = word_of_int (uint w)"
  by simp

lemma sint_ucast_small:
  assumes "(e :: size_t) < 2147483648"
  shows "sint (ucast e :: index_type) = uint e"
proof -
  have "uint e < 2147483648" using assms by (simp add: word_less_def)
  moreover have "- 2147483648 \<le> uint e" using uint_ge_0 [of e] by linarith
  ultimately have "sint (word_of_int (uint e) :: index_type) = uint e"
    by (rule sint_word_of_int32 [rotated])
  then show ?thesis by simp
qed

lemma fft_bounds:
  assumes "(e :: size_t) < 2147483648"
  shows "sint (- ucast (e div 2) :: index_type) = - (uint e div 2)"
    and "sint (int_div (ucast e) 2) = uint e div 2"
proof -
  have u: "uint e < 2147483648" "0 \<le> uint e" using assms by (simp_all add: word_less_def)
  have h: "uint (e div 2) = uint e div 2" by (simp add: uint_div)
  have "uint e div 2 \<le> uint e" using u(2) by linarith
  then have "e div 2 \<le> e" by (simp add: word_le_def h)
  then have "e div 2 < 2147483648" using assms by (rule order_le_less_trans)
  then have s: "sint (ucast (e div 2) :: index_type) = uint e div 2"
    using sint_ucast_small [of "e div 2"] h by simp
  have "- 2147483648 < uint e div 2" using u(2) by linarith
  then have "- (2 ^ 31) < sint (ucast (e div 2) :: index_type)" by (simp only: s) simp
  then show "sint (- ucast (e div 2) :: index_type) = - (uint e div 2)"
    using sint_uminus [of "ucast (e div 2)"] s by simp
  have se: "sint (ucast e :: index_type) = uint e" using assms by (rule sint_ucast_small)
  have "sgn (uint e) * (uint e div 2) = uint e div 2"
    using u(2) by (cases "uint e = 0") (simp_all add: sgn_if)
  moreover have "uint e div 2 < 2147483648" "- 2147483648 \<le> uint e div 2" using u by linarith+
  ultimately show "sint (int_div (ucast e) 2) = uint e div 2"
    using sint_word_of_int32 [of "uint e div 2"] u(2)
    by (simp add: int_div_def se)
qed

lemma for_each_upto:
  assumes "I 0 s" "\<And>i s. i < k \<Longrightarrow> I i s \<Longrightarrow> \<exists>s'. f i s = Inr s' \<and> I (Suc i) s'"
  shows "\<exists>s'. for_each [0..<k] f s = Inr s' \<and> I k s'"
proof -
  have app: "\<And>xs ys s. for_each (xs @ ys) f s = and_then (for_each xs f s) (for_each ys f)"
  proof -
    fix xs ys s show "for_each (xs @ ys) f s = and_then (for_each xs f s) (for_each ys f)"
      by (induction xs arbitrary: s) (simp_all add: and_then_def split: sum.splits)
  qed
  have "j \<le> k \<Longrightarrow> \<exists>s'. for_each [0..<j] f s = Inr s' \<and> I j s'" for j
  proof (induction j)
    case 0
    then show ?case using assms(1) by simp
  next
    case (Suc j)
    then obtain s1 where s1: "for_each [0..<j] f s = Inr s1" "I j s1" by auto
    obtain s2 where s2: "f j s1 = Inr s2" "I (Suc j) s2" using assms(2) [of j s1] Suc.prems s1(2) by auto
    show ?case using s1 s2 by (simp add: app)
  qed
  then show ?thesis by simp
qed

lemma half_extent_pos:
  assumes "(e :: size_t) \<noteq> 0" "even (uint e)"
  shows "1 \<le> uint e div 2" "uint e div 2 + uint e div 2 = uint e"
proof -
  have "0 < uint e" using assms(1) by (rule uint_pos)
  then show "1 \<le> uint e div 2" using assms(2) by (auto elim: evenE)
  show "uint e div 2 + uint e div 2 = uint e" using assms(2) by (auto elim: evenE)
qed

lemma fft_indexing_total:
  assumes ok: "fft_grid_ok g"
  shows "\<exists>index. fft_indexing g = Inr index \<and> storage_ok index \<and> valid index \<and>
           mDimension index = length (mExtents g) \<and>
           fft_bounded (mExtents g) index (length (mExtents g))"
proof -
  let ?E = "mExtents g"
  let ?D = "length ?E"
  note f = fft_grid_facts [OF ok]
  have ev: "\<And>i. i < ?D \<Longrightarrow> ?E ! i mod 2 = 0"
    using ok by (simp add: fft_grid_ok_def list_all_length)
  define I where "I = (\<lambda>i idx. storage_ok idx \<and> \<not> valid idx \<and> mDimension idx = ?D \<and>
                        fft_bounded ?E idx i)"
  define step where "step = (\<lambda>i idx. if getExtents g ! i mod 2 \<noteq> 0 then Inl logic_error
                          else and_then (setLowerBoundAt i (- ucast (getExtents g ! i div 2)) idx)
                                 (setUpperBoundAt i (int_div (ucast (getExtents g ! i)) 2)))"
  define idx0 where "idx0 = \<lparr> mLowerBound = replicate MAX_MULTIINDEX_DIMENSION 0,
                 mUpperBound = replicate MAX_MULTIINDEX_DIMENSION 0,
                 mCurrentPos = replicate MAX_MULTIINDEX_DIMENSION (0::index_type),
                 mDimension = ?D, mIsValid = False \<rparr>"
  have d4: "?D \<le> MAX_MULTIINDEX_DIMENSION" using f(6) by (simp add: MAX_MULTIINDEX_DIMENSION_def)
  have new: "MultiIndex_new (getDimension g) = Inr idx0"
    using d4 by (simp add: MultiIndex_new_def idx0_def getDimension_def)
  have I0: "I 0 idx0"
    using d4 by (simp add: I_def idx0_def storage_ok_def valid_def fft_bounded_def)
  have st: "\<exists>s'. step i s = Inr s' \<and> I (Suc i) s'" if i: "i < ?D" and Is: "I i s" for i s
  proof -
    let ?lb = "- ucast (?E ! i div 2) :: index_type"
    let ?ub = "int_div (ucast (?E ! i)) 2"
    let ?s' = "s\<lparr> mLowerBound := (mLowerBound s)[i := ?lb], mUpperBound := (mUpperBound s)[i := ?ub] \<rparr>"
    have s: "storage_ok s" "\<not> valid s" "mDimension s = ?D" "fft_bounded ?E s i"
      using Is by (simp_all add: I_def)
    have il: "i < length (mLowerBound s)" "i < length (mUpperBound s)"
      using s(1) i d4 by (simp_all add: storage_ok_def)
    have "step i s = Inr ?s'"
      using ev [OF i] s(2) il
      by (simp add: step_def getExtents_def setLowerBoundAt_def setUpperBoundAt_def valid_def)
    moreover have "I (Suc i) ?s'"
      using s il fft_bounds [of "?E ! i"] f(4) i
      by (auto simp: I_def storage_ok_def valid_def fft_bounded_def nth_list_update less_Suc_eq)
    ultimately show ?thesis by blast
  qed
  obtain idx where fe: "for_each [0..<?D] step idx0 = Inr idx" and Ii: "I ?D idx"
    using for_each_upto [of I idx0 ?D step, OF I0 st] by blast
  have s: "storage_ok idx" "\<not> valid idx" "mDimension idx = ?D" "fft_bounded ?E idx ?D"
    using Ii by (simp_all add: I_def)
  have nonempty: "\<not> list_ex (\<lambda>i. mUpperBound idx ! i <=s mLowerBound idx ! i) [0..<mDimension idx]"
  proof -
    have "\<not> mUpperBound idx ! i <=s mLowerBound idx ! i" if i: "i < ?D" for i
    proof -
      have "1 \<le> uint (?E ! i) div 2" using half_extent_pos(1) f(4) i by simp
      then show ?thesis using s(4) i by (simp add: fft_bounded_def word_sle_eq)
    qed
    then show ?thesis by (simp add: list_ex_iff s(3))
  qed
  let ?index = "idx\<lparr> mCurrentPos := mLowerBound idx, mIsValid := True \<rparr>"
  have "init idx = Inr ?index" using s(2) nonempty by (simp add: init_def)
  then have "fft_indexing g = Inr ?index"
    using new fe by (simp add: fft_indexing_def step_def getDimension_def)
  moreover have "storage_ok ?index \<and> valid ?index \<and> mDimension ?index = ?D \<and>
           fft_bounded ?E ?index ?D"
    using s by (simp add: storage_ok_def valid_def fft_bounded_def)
  ultimately show ?thesis by blast
qed

lemma thread_count_range: "1 \<le> thread_count g" "thread_count g \<le> 64"
  by (simp_all add: thread_count_def)

lemma sint_small_nat:
  assumes "n \<le> 64"
  shows "sint (word_of_nat n :: index_type) = int n"
proof -
  have "sint (word_of_int (int n) :: index_type) = int n"
    using assms by (intro sint_word_of_int32) simp_all
  then show ?thesis by simp
qed

lemma split_total:
  assumes ok: "fft_grid_ok g"
    and ix: "storage_ok index" "valid index" "mDimension index = length (mExtents g)"
      "fft_bounded (mExtents g) index (length (mExtents g))"
  shows "\<exists>subs. split index (thread_count g) = Inr subs \<and>
           (\<forall>s\<in>set subs. sub_ok (mExtents g) s \<and> valid s)"
proof -
  let ?E = "mExtents g"
  let ?D = "length ?E"
  let ?T = "thread_count g"
  let ?e = "uint (?E ! 0)"
  let ?h = "?e div 2"
  note f = fft_grid_facts [OF ok]
  have D0: "0 < ?D" using f(5) by linarith
  have T: "1 \<le> ?T" "?T \<le> 64" by (rule thread_count_range)+
  have e0: "?E ! 0 \<noteq> 0" "even ?e" using f(4) D0 by simp_all
  have h: "1 \<le> ?h" "?h + ?h = ?e" using half_extent_pos [OF e0] by simp_all
  have Te: "int ?T * ?e < 2147483648" using ok by (simp add: fft_grid_ok_def)
  have lo0: "sint (mLowerBound index ! 0) = - ?h" and up0: "sint (mUpperBound index ! 0) = ?h"
    using ix(4) D0 by (simp_all add: fft_bounded_def)
  have len: "length (mLowerBound index) = 4" "length (mUpperBound index) = 4"
    "length (mCurrentPos index) = 4" "?D \<le> 4"
    using ix(1,3) by (simp_all add: storage_ok_def MAX_MULTIINDEX_DIMENSION_def)
  define J where "J = (\<lambda>i (st :: MultiIndex list \<times> index_type).
      (\<forall>s\<in>set (fst st). sub_ok ?E s \<and> valid s) \<and>
      sint (snd st) = (int i * ?e) div int ?T - ?h)"
  have J0: "J 0 ([], mLowerBound index ! 0)" by (simp add: J_def lo0)
  have st: "\<exists>s'. split_step index ?T i s = Inr s' \<and> J (Suc i) s'" if i: "i < ?T" and Js: "J i s" for i s
  proof -
    obtain result last where s: "s = (result, last)" by (cases s)
    have res: "\<forall>s\<in>set result. sub_ok ?E s \<and> valid s"
      and la: "sint last = (int i * ?e) div int ?T - ?h"
      using Js by (simp_all add: J_def s)
    let ?sub1 = "index\<lparr> mIsValid := False, mLowerBound := (mLowerBound index)[0 := last] \<rparr>"
    have s1: "setLowerBoundAt 0 last (index\<lparr> mIsValid := False \<rparr>) = Inr ?sub1"
      using len by (simp add: setLowerBoundAt_def valid_def)
    let ?product = "int (i + 1) * ?e"
    let ?next = "?product div int ?T - ?h"
    have w: "sint (word_of_nat (i + 1) :: index_type) = int (i + 1)"
      using i T(2) by (intro sint_small_nat) simp
    have wT: "sint (word_of_nat ?T :: index_type) = int ?T" using T(2) by (rule sint_small_nat)
    have epos: "0 < ?e" using e0(1) by (rule uint_pos)
    have ppos: "0 < ?product" using epos by simp
    have "?product \<le> int ?T * ?e" using i epos by (intro mult_right_mono) simp_all
    then have pT: "?product \<le> int ?T * ?e" .
    then have pok: "int_ok ?product" using ppos Te by (simp add: int_ok_def)
    have e31: "?e < 2147483648" using f(4) D0 by (simp add: word_less_def)
    have rok: "int_ok ?e" using e31 epos by (simp add: int_ok_def)
    have "?product div int ?T \<le> (int ?T * ?e) div int ?T" using pT T(1) by (intro zdiv_mono1) simp_all
    then have q_le: "?product div int ?T \<le> ?e" using T(1) by simp
    have q_ge: "0 \<le> ?product div int ?T" using ppos T(1) by (simp add: pos_imp_zdiv_nonneg_iff)
    have nb: "- ?h \<le> ?next" "?next \<le> ?h" using q_le q_ge h(2) by linarith+
    have nok: "int_ok ?next" using nb e31 h epos unfolding int_ok_def by linarith
    have quot: "sgn ?product * sgn (int ?T) * (\<bar>?product\<bar> div \<bar>int ?T\<bar>) = ?product div int ?T"
      using ppos T(1) by (simp add: sgn_if)
    have sn: "sint (word_of_int ?next :: index_type) = ?next"
      using nok by (intro sint_word_of_int32) (simp_all add: int_ok_def)
    let ?sub2 = "?sub1\<lparr> mUpperBound := (mUpperBound index)[0 := word_of_int ?next] \<rparr>"
    have s2: "setUpperBoundAt 0 (word_of_int ?next) ?sub1 = Inr ?sub2"
      using len by (simp add: setUpperBoundAt_def valid_def)
    have range: "sint (mUpperBound index ! 0) - sint (mLowerBound index ! 0) = ?e"
      using lo0 up0 h(2) by simp
    have nx: "?product div int ?T + sint (mLowerBound index ! 0) = ?next" using lo0 by simp
    have body: "split_step index ?T i s =
        (if last = word_of_int ?next then Inr (result, last)
         else and_then (init ?sub2) (\<lambda>sub3. Inr (result @ [sub3], word_of_int ?next)))"
      unfolding split_step_def s
      by (simp only: prod.case s1 and_then_Inr Let_def range w wT quot nx pok rok nok
            simp_thms if_False s2)
    show ?thesis
    proof (cases "last = word_of_int ?next")
      case True
      then have "sint last = ?next" using sn by simp
      then have "J (Suc i) (result, last)" using res by (simp add: J_def)
      then show ?thesis using body True by simp
    next
      case False
      have "int i * ?e \<le> ?product" using epos by simp
      then have "(int i * ?e) div int ?T \<le> ?product div int ?T" using T(1) by (intro zdiv_mono1) simp_all
      then have le: "sint last \<le> ?next" using la by simp
      have "sint last \<noteq> ?next"
      proof
        assume "sint last = ?next"
        then have "word_of_int (sint last) = (word_of_int ?next :: index_type)" by simp
        then show False using False by simp
      qed
      then have lt: "sint last < ?next" using le by simp
      have nonempty: "\<not> list_ex (\<lambda>j. mUpperBound ?sub2 ! j <=s mLowerBound ?sub2 ! j) [0..<mDimension ?sub2]"
      proof -
        have "\<not> mUpperBound ?sub2 ! j <=s mLowerBound ?sub2 ! j" if j: "j < ?D" for j
        proof (cases "j = 0")
          case True
          then show ?thesis using lt sn len by (simp add: word_sle_eq)
        next
          case False
          have "1 \<le> uint (?E ! j) div 2" using half_extent_pos(1) f(4) j by simp
          then show ?thesis using ix(4) j False by (simp add: fft_bounded_def word_sle_eq)
        qed
        then show ?thesis by (simp add: list_ex_iff ix(3))
      qed
      let ?sub3 = "?sub2\<lparr> mCurrentPos := mLowerBound ?sub2, mIsValid := True \<rparr>"
      have i3: "init ?sub2 = Inr ?sub3" using nonempty by (simp add: init_def valid_def)
      have vb: "valid ?sub3 \<and> in_box ?sub3" using i3 by (rule init_establishes)
      have bounds: "- (uint (?E ! j) div 2) \<le> sint (mLowerBound ?sub3 ! j) \<and>
                     sint (mUpperBound ?sub3 ! j) \<le> uint (?E ! j) div 2" if j: "j < ?D" for j
      proof (cases "j = 0")
        case True
        have "- ?h \<le> sint last" using la q_ge epos T(1)
          by (simp add: pos_imp_zdiv_nonneg_iff)
        then show ?thesis using True nb sn len by simp
      next
        case False
        then show ?thesis using ix(4) j by (simp add: fft_bounded_def)
      qed
      have "sub_ok ?E ?sub3"
        unfolding sub_ok_def
      proof (intro conjI allI impI)
        show "storage_ok ?sub3" using ix(1) by (simp add: storage_ok_def)
        show "mDimension ?sub3 = ?D" using ix(3) by simp
        show "index_invariant ?sub3" using vb by (simp add: index_invariant_def)
      next
        fix j assume "j < ?D"
        then show "- (uint (?E ! j) div 2) \<le> sint (mLowerBound ?sub3 ! j)"
          "sint (mUpperBound ?sub3 ! j) \<le> uint (?E ! j) div 2"
          using bounds by simp_all
      qed
      then have "J (Suc i) (result @ [?sub3], word_of_int ?next)"
        using res vb sn by (simp add: J_def)
      then show ?thesis using body False i3 by simp
    qed
  qed
  obtain fin where fe: "for_each [0..<?T] (split_step index ?T) ([], mLowerBound index ! 0) = Inr fin"
    and Jf: "J ?T fin"
    using for_each_upto [of J "([], mLowerBound index ! 0)" ?T "split_step index ?T", OF J0 st] by blast
  obtain subs last where fin: "fin = (subs, last)" by (cases fin)
  have "split index ?T = Inr subs"
    using T fe by (simp add: split_def fin)
  moreover have "\<forall>s\<in>set subs. sub_ok ?E s \<and> valid s" using Jf by (simp add: J_def fin)
  ultimately show ?thesis by blast
qed

text \<open>
  Claim C3. For every complex grid in FFT access mode with one, two or three axes and
  even, non-zero extents (within the size bounds of \<open>fft_grid_ok\<close>) that satisfies
  \<open>G[n] = conj(G[-n])\<close> for every FFT-centred index \<open>n\<close>, for every seed, every way
  \<open>worker\<close> of seeding the generators of the tasks from it and every random source
  \<open>rnd\<close>: \<open>randomizePhases\<close> returns, without an exception, and the grid it leaves
  satisfies \<open>G[n] = conj(G[-n])\<close> for every FFT-centred index \<open>n\<close>; its extents and
  access mode are unchanged.
\<close>

theorem randomizePhases_keeps_hermitian:
  assumes "fft_grid_ok g" "hermitian g"
  shows "\<exists>g'. randomizePhases rnd worker g seed = Some (Inr g') \<and> hermitian g' \<and>
           fft_grid_ok g' \<and> mExtents g' = mExtents g"
proof -
  obtain index where ix: "fft_indexing g = Inr index" "storage_ok index" "valid index"
      "mDimension index = length (mExtents g)"
      "fft_bounded (mExtents g) index (length (mExtents g))"
    using fft_indexing_total [OF assms(1)] by blast
  obtain subs where sp: "split index (thread_count g) = Inr subs"
    and ss: "\<forall>s\<in>set subs. sub_ok (mExtents g) s \<and> valid s"
    using split_total [OF assms(1) ix(2-5)] by blast
  obtain g' where "run_tasks rnd (worker seed) 0 subs g = Some (Inr g')"
    "fft_grid_ok g'" "hermitian g'" "mExtents g' = mExtents g"
    using run_tasks_total [OF ss assms, of rnd "worker seed" 0] by blast
  then show ?thesis by (simp add: randomizePhases_def ix(1) sp)
qed

theorem randomizePhases_keeps_hermitian_witness:
  "fft_grid_ok \<lparr> mData = [1, \<i>, 2, - \<i>], mExtents = [4], mTrafoType = FFT_INDEX \<rparr>
   \<and> hermitian \<lparr> mData = [1, \<i>, 2, - \<i>], mExtents = [4], mTrafoType = FFT_INDEX \<rparr>
   \<and> (\<exists>g'. randomizePhases (\<lambda>r :: nat. (pi / 2, Suc r)) (\<lambda>seed k. k)
              \<lparr> mData = [1, \<i>, 2, - \<i>], mExtents = [4], mTrafoType = FFT_INDEX \<rparr> 7
            = Some (Inr g') \<and> hermitian g' \<and> mExtents g' = [4])"
proof -
  let ?G = "\<lparr> mData = [1, \<i>, 2, - \<i>], mExtents = [4 :: size_t], mTrafoType = FFT_INDEX \<rparr>"
  have sp: "safe_product [4] = Inr (4 :: size_t)" by code_simp
  have tc: "thread_count ?G = 1" by (simp add: thread_count_def)
  have ok: "fft_grid_ok ?G"
    using sp tc by (simp add: fft_grid_ok_def grid_ok_def getDimension_def)
  have c: "getOffsetOf ?G [- 2] = 2" "getOffsetOf ?G [2] = 2" "getOffsetOf ?G [- 1] = 3"
    "getOffsetOf ?G [1] = 1" "getOffsetOf ?G [0] = 0"
    by code_simp+
  have h: "hermitian ?G"
    unfolding hermitian_def
  proof (intro allI impI)
    fix n assume "fft_index (mExtents ?G) n"
    then obtain x where n: "n = [x]" and b: "- 2 \<le> sint x" "sint x < 2"
      by (cases n) (auto simp: fft_index_def)
    have "sint x = sint (- 2 :: index_type) \<or> sint x = sint (- 1 :: index_type)
        \<or> sint x = sint (0 :: index_type) \<or> sint x = sint (1 :: index_type)"
      using b by auto
    then have "x = - 2 \<or> x = - 1 \<or> x = 0 \<or> x = 1"
      by (simp only: word_eq_iff_signed [symmetric])
    then show "cell_at ?G n = cnj (cell_at ?G (map uminus n))"
      by (auto simp: n cell_at_def c)
  qed
  show ?thesis
    using ok h randomizePhases_keeps_hermitian [OF ok h, of "\<lambda>r. (pi / 2, Suc r)" "\<lambda>seed k. k" 7]
    by auto
qed

end
